theory Spec2Isabelle
  imports Main
begin

section \<open>C strings and formatted output\<close>

text \<open>
  Strings held in \<^verbatim>\<open>char *\<close> fields are modelled as \<^typ>\<open>string\<close> (byte lists)
  without embedded NUL bytes.  \<^verbatim>\<open>strcasecmp\<close> and \<^verbatim>\<open>strncasecmp\<close> compare
  through \<^verbatim>\<open>tolower\<close> in the C locale.
\<close>

definition i_tolower :: "char \<Rightarrow> char" where
  "i_tolower c =
     (case map_of (zip ''ABCDEFGHIJKLMNOPQRSTUVWXYZ'' ''abcdefghijklmnopqrstuvwxyz'') c of
        None \<Rightarrow> c
      | Some l \<Rightarrow> l)"

definition strcasecmp_eq :: "string \<Rightarrow> string \<Rightarrow> bool" where
  "strcasecmp_eq a b = (map i_tolower a = map i_tolower b)"

definition strncasecmp_eq :: "string \<Rightarrow> string \<Rightarrow> nat \<Rightarrow> bool" where
  "strncasecmp_eq a b n = (map i_tolower (take n a) = map i_tolower (take n b))"

text \<open>The decimal text that \<^verbatim>\<open>printf\<close> writes for an unsigned number.\<close>

definition digit_char :: "nat \<Rightarrow> char" where
  "digit_char d = ''0123456789'' ! d"

fun dec :: "nat \<Rightarrow> string" where
  "dec n = (if n < 10 then [digit_char n] else dec (n div 10) @ [digit_char (n mod 10)])"

declare dec.simps [simp del]

definition NVL :: "string option \<Rightarrow> string \<Rightarrow> string" where
  "NVL s d = (case s of None \<Rightarrow> d | Some v \<Rightarrow> v)"

section \<open>The MIME part tree and its metadata\<close>

definition EMPTY_BODYSTRUCTURE :: string where
  \<open>EMPTY_BODYSTRUCTURE = ''("text" "plain" ("charset" "us-ascii") NIL NIL "7bit" 0 0)''\<close>

text \<open>
  \<^verbatim>\<open>MessagePartBodyData\<close>: every \<^verbatim>\<open>char *\<close> member is \<open>None\<close> when it is NULL.
  The member \<^verbatim>\<open>str\<close> is the scratch string the parameter callback appends to; the pool
  is not modelled.  The envelope is opaque: its type is the parameter \<open>'e\<close>.
\<close>

record 'e body_data =
  str :: string
  content_type :: "string option"
  content_subtype :: "string option"
  content_type_params :: "string option"
  content_transfer_encoding :: "string option"
  content_id :: "string option"
  content_description :: "string option"
  content_disposition :: "string option"
  content_disposition_params :: "string option"
  content_md5 :: "string option"
  content_language :: "string option"
  envelope :: "'e option"

definition empty_body_data :: "'e body_data" where
  "empty_body_data =
     \<lparr>str = [], content_type = None, content_subtype = None, content_type_params = None,
      content_transfer_encoding = None, content_id = None, content_description = None,
      content_disposition = None, content_disposition_params = None, content_md5 = None,
      content_language = None, envelope = None\<rparr>"

datatype message_part_flag =
    MESSAGE_PART_FLAG_MULTIPART
  | MESSAGE_PART_FLAG_TEXT
  | MESSAGE_PART_FLAG_MESSAGE_RFC822

text \<open>
  \<^verbatim>\<open>body_size.virtual_size\<close> and \<^verbatim>\<open>body_size.lines\<close> are unsigned machine numbers
  that are only printed, never computed with; they are natural numbers here.
\<close>

record message_size =
  virtual_size :: nat
  lines :: nat

text \<open>
  \<^verbatim>\<open>MessagePart\<close>: the \<^verbatim>\<open>children\<close>/\<^verbatim>\<open>next\<close> chain is the list of children.  The
  \<^verbatim>\<open>parent\<close> pointer is not stored in the tree: the functions that read it take what
  they read from it as an argument.
\<close>

datatype 'e message_part =
  MessagePart (flags: "message_part_flag set") (body_size: message_size)
    (part_context: "'e body_data option") (children: "'e message_part list")

datatype panic = Assert_failed | Null_pointer

section \<open>The structure serializer\<close>

text \<open>
  The straight-line segments of the two writers.  \<open>params_or_nil\<close> is the
  \<^verbatim>\<open>if (x == NULL) "NIL" else "(" x ")"\<close> idiom that the writers use for the
  parameter list and the language list.
\<close>

definition params_or_nil :: "string option \<Rightarrow> string" where
  "params_or_nil x = (case x of None \<Rightarrow> ''NIL'' | Some ps \<Rightarrow> ''('' @ ps @ '')'')"

text \<open>\<^verbatim>\<open>part_write_body_multipart\<close> after \<^verbatim>\<open>if (!extended) return;\<close>.\<close>

definition multipart_extended :: "'e body_data \<Rightarrow> string" where
  "multipart_extended data =
     '' '' @ params_or_nil (content_type_params data) @
     '' '' @
       (case content_disposition data of
          None \<Rightarrow> ''NIL''
        | Some disp \<Rightarrow>
            ''('' @ disp @
            (case content_disposition_params data of
               None \<Rightarrow> []
             | Some dps \<Rightarrow> '' ('' @ dps @ '')'') @ '')'') @
     '' '' @ params_or_nil (content_language data)"

text \<open>\<^verbatim>\<open>part_write_body\<close> up to the octet size.\<close>

definition body_fields :: "'e body_data \<Rightarrow> message_size \<Rightarrow> string" where
  \<open>body_fields data sz =
     NVL (content_type data) ''"text"'' @ '' '' @
     NVL (content_subtype data) ''"plain"'' @
     '' '' @ params_or_nil (content_type_params data) @
     '' '' @ NVL (content_id data) ''NIL'' @
     '' '' @ NVL (content_description data) ''NIL'' @
     '' '' @ NVL (content_transfer_encoding data) ''"8bit"'' @
     '' '' @ dec (virtual_size sz)\<close>

text \<open>The envelope field of a message/rfc822 part, read from its only child.\<close>

definition envelope_field :: "('e \<Rightarrow> string) \<Rightarrow> 'e message_part \<Rightarrow> string" where
  "envelope_field ew child =
     (case part_context child of
        None \<Rightarrow> ''NIL''
      | Some child_data \<Rightarrow>
          (case envelope child_data of
             None \<Rightarrow> ''NIL''
           | Some env \<Rightarrow> ''('' @ ew env @ '')''))"

text \<open>\<^verbatim>\<open>part_write_body\<close> after \<^verbatim>\<open>if (!extended) return;\<close>.\<close>

definition body_extended :: "'e body_data \<Rightarrow> string" where
  "body_extended data =
     '' '' @ NVL (content_md5 data) ''NIL'' @
     '' '' @
       (case content_disposition data of
          None \<Rightarrow> ''NIL''
        | Some disp \<Rightarrow>
            ''('' @ disp @ '')'' @
            (case content_disposition_params data of
               None \<Rightarrow> []
             | Some dps \<Rightarrow> '' ('' @ dps @ '')'')) @
     '' '' @ params_or_nil (content_language data)"

text \<open>
  The writers only ever append to the string buffer they are given, so each one is
  modelled by the text it appends, or by the panic of a failed \<^verbatim>\<open>i_assert\<close> (or of
  a NULL pointer that is read).  The first argument is
  \<^verbatim>\<open>imap_envelope_write_part_data\<close>, which is not part of this file: the text it
  appends for an envelope.  The flag \<open>has_parent\<close> is \<^verbatim>\<open>part->parent != NULL\<close>;
  \<open>part_write_siblings\<close> is the \<^verbatim>\<open>while\<close> loop of
  \<^verbatim>\<open>part_write_bodystructure\<close>.
\<close>

fun part_write_bodystructure ::
    "('e \<Rightarrow> string) \<Rightarrow> bool \<Rightarrow> 'e message_part list \<Rightarrow> bool \<Rightarrow> panic + string"
  and part_write_siblings ::
    "('e \<Rightarrow> string) \<Rightarrow> bool \<Rightarrow> 'e message_part list \<Rightarrow> bool \<Rightarrow> panic + string"
  and part_write_body_multipart ::
    "('e \<Rightarrow> string) \<Rightarrow> 'e message_part \<Rightarrow> bool \<Rightarrow> panic + string"
  and part_write_body ::
    "('e \<Rightarrow> string) \<Rightarrow> 'e message_part \<Rightarrow> bool \<Rightarrow> panic + string"
where
  "part_write_bodystructure ew has_parent [] extended = Inl Null_pointer"
| "part_write_bodystructure ew has_parent (part # next) extended =
     (if \<not> (has_parent \<or> next = []) then Inl Assert_failed
      else part_write_siblings ew has_parent (part # next) extended)"
| "part_write_siblings ew has_parent [] extended = Inr []"
| "part_write_siblings ew has_parent (part # next) extended =
     (case (if MESSAGE_PART_FLAG_MULTIPART \<in> flags part
            then part_write_body_multipart ew part extended
            else part_write_body ew part extended) of
        Inl e \<Rightarrow> Inl e
      | Inr s1 \<Rightarrow>
          (case part_write_siblings ew has_parent next extended of
             Inl e \<Rightarrow> Inl e
           | Inr s2 \<Rightarrow> Inr ((if has_parent then ''('' @ s1 @ '')'' else s1) @ s2)))"
| "part_write_body_multipart ew (MessagePart fl sz None ch) extended = Inl Assert_failed"
| "part_write_body_multipart ew (MessagePart fl sz (Some data) ch) extended =
     (case (if ch \<noteq> [] then part_write_bodystructure ew True ch extended
            else Inr EMPTY_BODYSTRUCTURE) of
        Inl e \<Rightarrow> Inl e
      | Inr s1 \<Rightarrow>
          (case content_subtype data of
             None \<Rightarrow> Inl Null_pointer
           | Some subtype \<Rightarrow>
               if \<not> extended then Inr (s1 @ '' '' @ subtype)
               else Inr (s1 @ '' '' @ subtype @ multipart_extended data)))"
| "part_write_body ew (MessagePart fl sz ctx ch) extended =
     (case (if MESSAGE_PART_FLAG_TEXT \<in> fl then
              Inr (body_fields (case ctx of None \<Rightarrow> empty_body_data | Some d \<Rightarrow> d) sz @
                   '' '' @ dec (lines sz))
            else if MESSAGE_PART_FLAG_MESSAGE_RFC822 \<in> fl then
              (case ch of
                 [] \<Rightarrow> Inl Assert_failed
               | child # next \<Rightarrow>
                   if next \<noteq> [] then Inl Assert_failed
                   else
                     (case part_write_bodystructure ew True ch extended of
                        Inl e \<Rightarrow> Inl e
                      | Inr s1 \<Rightarrow>
                          Inr (body_fields
                                 (case ctx of None \<Rightarrow> empty_body_data | Some d \<Rightarrow> d) sz @
                               '' '' @ envelope_field ew child @ '' '' @ s1 @
                               '' '' @ dec (lines sz))))
            else Inr (body_fields (case ctx of None \<Rightarrow> empty_body_data | Some d \<Rightarrow> d) sz)) of
        Inl e \<Rightarrow> Inl e
      | Inr s2 \<Rightarrow>
          if \<not> extended then Inr s2
          else Inr (s2 @ body_extended (case ctx of None \<Rightarrow> empty_body_data | Some d \<Rightarrow> d)))"

text \<open>\<^verbatim>\<open>part_get_bodystructure\<close>: the root has no parent and starts an empty buffer.\<close>

definition part_get_bodystructure ::
    "('e \<Rightarrow> string) \<Rightarrow> 'e message_part \<Rightarrow> bool \<Rightarrow> panic + string" where
  "part_get_bodystructure ew part extended = part_write_bodystructure ew False [part] extended"

section \<open>The structure reducer\<close>

text \<open>
  \<^verbatim>\<open>ImapArg\<close>: an argument array ends with an element of type \<^verbatim>\<open>IMAP_ARG_EOL\<close>, which
  is the end of the list here.
\<close>

datatype imap_arg =
    IMAP_ARG_NIL
  | IMAP_ARG_ATOM string
  | IMAP_ARG_STRING string
  | IMAP_ARG_LIST "imap_arg list"

text \<open>
  \<^verbatim>\<open>imap_write_list\<close>; \<open>imap_write_items\<close> is its \<^verbatim>\<open>while\<close> loop.  The
  \<^verbatim>\<open>default: return FALSE\<close> branch is for argument types other than the four of
  \<^typ>\<open>imap_arg\<close>, so the writer always returns TRUE and is modelled by its text.
\<close>

fun imap_write_list :: "imap_arg list \<Rightarrow> string"
  and imap_write_items :: "imap_arg list \<Rightarrow> string"
where
  "imap_write_list args = ''('' @ imap_write_items args @ '')''"
| "imap_write_items [] = []"
| \<open>imap_write_items (arg # args) =
     (case arg of
        IMAP_ARG_NIL \<Rightarrow> ''NIL''
      | IMAP_ARG_ATOM a \<Rightarrow> a
      | IMAP_ARG_STRING s \<Rightarrow> ''"'' @ s @ ''"''
      | IMAP_ARG_LIST l \<Rightarrow> imap_write_list l) @
     (if args \<noteq> [] then '' '' else []) @ imap_write_items args\<close>

text \<open>The loop over the pairs of the parameter list.\<close>

fun write_params :: "imap_arg list \<Rightarrow> string option" where
  "write_params [] = Some []"
| \<open>write_params (IMAP_ARG_STRING k # IMAP_ARG_STRING v # subargs) =
     (if subargs = [] then Some (''"'' @ k @ ''" "'' @ v @ ''"'')
      else (case write_params subargs of
              None \<Rightarrow> None
            | Some r \<Rightarrow> Some (''"'' @ k @ ''" "'' @ v @ ''"'' @ '' '' @ r)))\<close>
| "write_params _ = None"

text \<open>
  The loop \<^verbatim>\<open>for (i = 0; i < 4; i++, args++)\<close>; the first argument counts the rounds
  that remain.  It returns the text and the arguments that are left.
\<close>

fun copy_fields :: "nat \<Rightarrow> imap_arg list \<Rightarrow> (string \<times> imap_arg list) option" where
  "copy_fields 0 args = Some ([], args)"
| "copy_fields (Suc i) [] = None"
| \<open>copy_fields (Suc i) (arg # args) =
     (case (case arg of
              IMAP_ARG_NIL \<Rightarrow> Some '' NIL''
            | IMAP_ARG_ATOM a \<Rightarrow> Some ('' '' @ a)
            | IMAP_ARG_STRING s \<Rightarrow> Some ('' "'' @ s @ ''"'')
            | IMAP_ARG_LIST l \<Rightarrow> None) of
        None \<Rightarrow> None
      | Some t \<Rightarrow>
          (case copy_fields i args of
             None \<Rightarrow> None
           | Some (r, rest) \<Rightarrow> Some (t @ r, rest)))\<close>

text \<open>
  The leaf branch of \<^verbatim>\<open>imap_parse_bodystructure_args\<close> from the type to the size: it
  returns the flags \<^verbatim>\<open>text\<close> and \<^verbatim>\<open>message_rfc822\<close>, the text written and the
  arguments that are left.
\<close>

definition leaf_head :: "imap_arg list \<Rightarrow> (bool \<times> bool \<times> string \<times> imap_arg list) option" where
  \<open>leaf_head args =
     (case args of
        IMAP_ARG_STRING t # IMAP_ARG_STRING st # args1 \<Rightarrow>
          (case (case args1 of
                   IMAP_ARG_LIST subargs # args2 \<Rightarrow>
                     (case write_params subargs of
                        None \<Rightarrow> None
                      | Some ps \<Rightarrow> Some ('' ('' @ ps @ '')'', args2))
                 | IMAP_ARG_NIL # args2 \<Rightarrow> Some ('' NIL'', args2)
                 | _ \<Rightarrow> None) of
             None \<Rightarrow> None
           | Some (ptext, args2) \<Rightarrow>
               (case copy_fields 4 args2 of
                  None \<Rightarrow> None
                | Some (ftext, args3) \<Rightarrow>
                    Some (strcasecmp_eq t ''text'',
                          strcasecmp_eq t ''message'' \<and> strcasecmp_eq st ''rfc822'',
                          ''"'' @ t @ ''" "'' @ st @ ''"'' @ ptext @ ftext, args3)))
      | _ \<Rightarrow> None)\<close>

lemma copy_fields_size:
  "copy_fields n args = Some (r, rest) \<Longrightarrow> size_list size rest \<le> size_list size args"
proof (induction n args arbitrary: r rule: copy_fields.induct)
  case (3 i arg args)
  then show ?case
    by (fastforce split: option.splits)
qed auto

lemma leaf_head_size:
  "leaf_head args = Some (tx, rf, r, rest) \<Longrightarrow> size_list size rest \<le> size_list size args"
  by (auto simp: leaf_head_def split: list.splits imap_arg.splits option.splits
      dest!: copy_fields_size)

text \<open>
  \<^verbatim>\<open>imap_parse_bodystructure_args\<close>, modelled by the text it appends, \<open>None\<close> when it
  returns FALSE.  \<open>parse_leading_lists\<close> is the \<^verbatim>\<open>while\<close> loop over the leading
  lists with the value of \<^verbatim>\<open>multipart\<close>; \<open>parse_after_lists\<close> is the function from
  \<^verbatim>\<open>if (multipart)\<close> on.
\<close>

function imap_parse_bodystructure_args :: "imap_arg list \<Rightarrow> string option"
  and parse_leading_lists :: "bool \<Rightarrow> imap_arg list \<Rightarrow> string option"
  and parse_after_lists :: "bool \<Rightarrow> imap_arg list \<Rightarrow> string option"
where
  "imap_parse_bodystructure_args args = parse_leading_lists False args"
| "parse_leading_lists multipart [] = parse_after_lists multipart []"
| "parse_leading_lists multipart (arg # args) =
     (case arg of
        IMAP_ARG_LIST l \<Rightarrow>
          (case imap_parse_bodystructure_args l of
             None \<Rightarrow> None
           | Some t \<Rightarrow>
               (case parse_leading_lists True args of
                  None \<Rightarrow> None
                | Some r \<Rightarrow> Some (''('' @ t @ '')'' @ r)))
      | _ \<Rightarrow> parse_after_lists multipart (arg # args))"
| \<open>parse_after_lists multipart args =
     (if multipart then
        (case args of
           IMAP_ARG_STRING s # _ \<Rightarrow> Some ('' "'' @ s @ ''"'')
         | _ \<Rightarrow> None)
      else
        (case leaf_head args of
           None \<Rightarrow> None
         | Some (text_type, message_rfc822, head, rest) \<Rightarrow>
             if text_type then
               (case rest of
                  IMAP_ARG_ATOM n # _ \<Rightarrow> Some (head @ '' '' @ n)
                | _ \<Rightarrow> None)
             else if message_rfc822 then
               (case rest of
                  IMAP_ARG_LIST env # IMAP_ARG_LIST body # IMAP_ARG_ATOM n # _ \<Rightarrow>
                    (case imap_parse_bodystructure_args body of
                       None \<Rightarrow> None
                     | Some b \<Rightarrow>
                         Some (head @ '' '' @ imap_write_list env @ '' '' @ b @ '' '' @ n))
                | _ \<Rightarrow> None)
             else Some head))\<close>
  by pat_completeness auto
termination
  by (relation "measure (\<lambda>x. case x of
                    Inl args \<Rightarrow> 2 * size_list size args + 2
                  | Inr (Inl (m, args)) \<Rightarrow> 2 * size_list size args + 1
                  | Inr (Inr (m, args)) \<Rightarrow> 2 * size_list size args)")
     (auto dest!: leaf_head_size)

declare imap_parse_bodystructure_args.simps [simp del] parse_leading_lists.simps [simp del]
  parse_after_lists.simps [simp del]

text \<open>
  Modelled from the spec: \<^verbatim>\<open>imap_parser_read_args\<close> (the generic IMAP argument
  parser) is not in src/.  The spec gives its result type (NIL, atom, quoted string,
  list) and the wire format: a parenthesized list grammar, strings double-quoted with
  backslash escapes, the bare token NIL for an absent value, everything else an atom.
  The reducer calls it with \<^verbatim>\<open>IMAP_PARSE_FLAG_NO_UNESCAPE\<close>, so a quoted string keeps
  its escapes.  The model reads the text one byte at a time; the accumulators hold
  what was read in reverse.
\<close>

datatype lex_mode = Idle | In_atom string | In_string string | In_escape string

type_synonym parser_state = "lex_mode \<times> imap_arg list \<times> imap_arg list list"

definition atom_arg :: "string \<Rightarrow> imap_arg" where
  "atom_arg acc = (if rev acc = ''NIL'' then IMAP_ARG_NIL else IMAP_ARG_ATOM (rev acc))"

definition idle_step :: "imap_arg list \<Rightarrow> imap_arg list list \<Rightarrow> char \<Rightarrow> parser_state option" where
  \<open>idle_step cur stack c =
     (if c = CHR '' '' then Some (Idle, cur, stack)
      else if c = CHR ''('' then Some (Idle, [], cur # stack)
      else if c = CHR '')'' then
        (case stack of
           [] \<Rightarrow> None
         | outer # stack' \<Rightarrow> Some (Idle, IMAP_ARG_LIST (rev cur) # outer, stack'))
      else if c = CHR ''"'' then Some (In_string [], cur, stack)
      else Some (In_atom [c], cur, stack))\<close>

fun parser_step :: "parser_state \<Rightarrow> char \<Rightarrow> parser_state option" where
  "parser_step (Idle, cur, stack) c = idle_step cur stack c"
| \<open>parser_step (In_atom acc, cur, stack) c =
     (if c = CHR '' '' \<or> c = CHR ''('' \<or> c = CHR '')'' then idle_step (atom_arg acc # cur) stack c
      else if c = CHR ''"'' then None
      else Some (In_atom (c # acc), cur, stack))\<close>
| \<open>parser_step (In_string acc, cur, stack) c =
     (if c = CHR ''"'' then Some (Idle, IMAP_ARG_STRING (rev acc) # cur, stack)
      else if c = CHR 0x5C then Some (In_escape (c # acc), cur, stack)
      else Some (In_string (c # acc), cur, stack))\<close>
| "parser_step (In_escape acc, cur, stack) c = Some (In_string (c # acc), cur, stack)"

fun parser_run :: "string \<Rightarrow> parser_state \<Rightarrow> parser_state option" where
  "parser_run [] st = Some st"
| "parser_run (c # cs) st =
     (case parser_step st c of None \<Rightarrow> None | Some st' \<Rightarrow> parser_run cs st')"

fun parser_finish :: "parser_state \<Rightarrow> imap_arg list option" where
  "parser_finish (Idle, cur, []) = Some (rev cur)"
| "parser_finish (In_atom acc, cur, []) = Some (rev (atom_arg acc # cur))"
| "parser_finish _ = None"

definition imap_parser_read_args :: "string \<Rightarrow> imap_arg list option" where
  "imap_parser_read_args input =
     (case parser_run input (Idle, [], []) of
        None \<Rightarrow> None
      | Some st \<Rightarrow> parser_finish st)"

text \<open>
  \<^verbatim>\<open>imap_body_parse_from_bodystructure\<close>: NULL (\<open>None\<close>) when the parser fails or the
  reducer returns FALSE, the reducer's text otherwise.
\<close>

definition imap_body_parse_from_bodystructure :: "string \<Rightarrow> string option" where
  "imap_body_parse_from_bodystructure bodystructure =
     (case imap_parser_read_args bodystructure of
        None \<Rightarrow> None
      | Some args \<Rightarrow> imap_parse_bodystructure_args args)"

section \<open>The header classifier\<close>

text \<open>
  \<^verbatim>\<open>Rfc822Token\<close>: \<open>token\<close> is the token's class or, for a special, the byte
  itself; \<open>ptr\<close> holds the \<^verbatim>\<open>len\<close> bytes at \<^verbatim>\<open>ptr\<close>.
\<close>

record rfc822_token =
  token :: char
  ptr :: string

text \<open>
  What the classifier uses and src/ does not hold, taken as parameters: the macro
  \<^verbatim>\<open>IS_TOKEN_STRING\<close>, \<^verbatim>\<open>rfc822_tokens_get_value_quoted\<close>, \<^verbatim>\<open>imap_quote_value\<close>,
  \<^verbatim>\<open>imap_envelope_parse_header\<close>, and the two things
  \<^verbatim>\<open>message_content_parse_header\<close> computes from a header value: the tokens of the
  main value and the name and value tokens of each parameter.
\<close>

record 'e externals =
  IS_TOKEN_STRING :: "char \<Rightarrow> bool"
  rfc822_tokens_get_value_quoted :: "rfc822_token list \<Rightarrow> string"
  imap_quote_value :: "string \<Rightarrow> string"
  imap_envelope_parse_header :: "'e option \<Rightarrow> string \<Rightarrow> string \<Rightarrow> 'e option"
  content_tokens :: "string \<Rightarrow> rfc822_token list"
  content_params :: "string \<Rightarrow> (rfc822_token \<times> rfc822_token list) list"

text \<open>
  Modelled from the spec: \<^verbatim>\<open>message_content_parse_header\<close> is not in src/.  It
  invokes the main-value callback once and then the parameter callback, when there is
  one, once per \<^verbatim>\<open>name=value\<close> pair.
\<close>

definition message_content_parse_header ::
    "'e externals \<Rightarrow> string \<Rightarrow> (rfc822_token list \<Rightarrow> 'c \<Rightarrow> 'c) \<Rightarrow>
     (rfc822_token \<Rightarrow> rfc822_token list \<Rightarrow> 'c \<Rightarrow> 'c) option \<Rightarrow> 'c \<Rightarrow> 'c" where
  "message_content_parse_header E v func param_func ctx =
     (case param_func of
        None \<Rightarrow> func (content_tokens E v) ctx
      | Some pf \<Rightarrow> fold (\<lambda>(n, vs). pf n vs) (content_params E v) (func (content_tokens E v) ctx))"

definition parse_content_type ::
    "'e externals \<Rightarrow> rfc822_token list \<Rightarrow> 'e body_data \<Rightarrow> 'e body_data" where
  "parse_content_type E tokens data =
     (let i = length (takeWhile (\<lambda>t. token t \<noteq> CHR ''/'') tokens) in
      data\<lparr>content_type := Some (rfc822_tokens_get_value_quoted E (take i tokens)),
           content_subtype := Some (rfc822_tokens_get_value_quoted E (drop (i + 1) tokens))\<rparr>)"

definition parse_save_params_list ::
    "'e externals \<Rightarrow> rfc822_token \<Rightarrow> rfc822_token list \<Rightarrow> 'e body_data \<Rightarrow> 'e body_data" where
  \<open>parse_save_params_list E name vs data =
     data\<lparr>str := (if str data \<noteq> [] then str data @ '' '' else str data) @
                  ''"'' @ ptr name @ ''" '' @ rfc822_tokens_get_value_quoted E vs\<rparr>\<close>

definition parse_content_transfer_encoding ::
    "'e externals \<Rightarrow> rfc822_token list \<Rightarrow> 'e body_data \<Rightarrow> 'e body_data" where
  "parse_content_transfer_encoding E tokens data =
     data\<lparr>content_transfer_encoding := Some (rfc822_tokens_get_value_quoted E tokens)\<rparr>"

definition parse_content_disposition ::
    "'e externals \<Rightarrow> rfc822_token list \<Rightarrow> 'e body_data \<Rightarrow> 'e body_data" where
  "parse_content_disposition E tokens data =
     data\<lparr>content_disposition := Some (rfc822_tokens_get_value_quoted E tokens)\<rparr>"

text \<open>
  The loop of \<^verbatim>\<open>parse_content_language\<close> over the tokens, with the string built so
  far and the flag \<^verbatim>\<open>quoted\<close>, and the closing quote after the loop.
\<close>

fun language_loop :: "(char \<Rightarrow> bool) \<Rightarrow> rfc822_token list \<Rightarrow> string \<Rightarrow> bool \<Rightarrow> string" where
  \<open>language_loop is_string [] s quoted = (if quoted then s @ ''"'' else s)\<close>
| \<open>language_loop is_string (t # tokens) s quoted =
     (if token t = CHR ''('' then language_loop is_string tokens s quoted
      else if token t = CHR '','' then
        (if quoted then language_loop is_string tokens (s @ ''"'') False
         else language_loop is_string tokens s quoted)
      else
        language_loop is_string tokens
          ((if \<not> quoted then (if s \<noteq> [] then s @ '' '' else s) @ ''"'' else s) @
           (if is_string (token t) then ptr t else [token t]))
          True)\<close>

definition parse_content_language ::
    "'e externals \<Rightarrow> rfc822_token list \<Rightarrow> 'e body_data \<Rightarrow> 'e body_data" where
  "parse_content_language E tokens data =
     (if tokens = [] then data
      else data\<lparr>content_language := Some (language_loop (IS_TOKEN_STRING E) tokens [] False)\<rparr>)"

text \<open>\<^verbatim>\<open>t_strndup\<close>: the bytes up to the first NUL.\<close>

definition t_strndup :: "string \<Rightarrow> string" where
  "t_strndup s = takeWhile (\<lambda>c. c \<noteq> CHR 0x00) s"

text \<open>The chain of comparisons of \<^verbatim>\<open>parse_header\<close>, on the part's metadata.\<close>

definition header_dispatch ::
    "'e externals \<Rightarrow> bool \<Rightarrow> string \<Rightarrow> string \<Rightarrow> 'e body_data \<Rightarrow> 'e body_data" where
  "header_dispatch E parent_rfc822 name v part_data =
     (if strcasecmp_eq name ''Content-Type'' \<and> content_type part_data = None then
        (let d = message_content_parse_header E (t_strndup v) (parse_content_type E)
                   (Some (parse_save_params_list E)) (part_data\<lparr>str := []\<rparr>)
         in d\<lparr>content_type_params := Some (str d)\<rparr>)
      else if strcasecmp_eq name ''Content-Transfer-Encoding'' \<and>
              content_transfer_encoding part_data = None then
        message_content_parse_header E (t_strndup v) (parse_content_transfer_encoding E)
          None part_data
      else if strcasecmp_eq name ''Content-ID'' \<and> content_id part_data = None then
        part_data\<lparr>content_id := Some (imap_quote_value E v)\<rparr>
      else if strcasecmp_eq name ''Content-Description'' \<and>
              content_description part_data = None then
        part_data\<lparr>content_description := Some (imap_quote_value E v)\<rparr>
      else if strcasecmp_eq name ''Content-Disposition'' \<and>
              content_disposition_params part_data = None then
        (let d = message_content_parse_header E (t_strndup v) (parse_content_disposition E)
                   (Some (parse_save_params_list E)) (part_data\<lparr>str := []\<rparr>)
         in d\<lparr>content_disposition_params := Some (str d)\<rparr>)
      else if strcasecmp_eq name ''Content-Language'' then
        message_content_parse_header E (t_strndup v) (parse_content_language E) None part_data
      else if strcasecmp_eq name ''Content-MD5'' \<and> content_md5 part_data = None then
        part_data\<lparr>content_md5 := Some (imap_quote_value E v)\<rparr>
      else if parent_rfc822 then
        part_data\<lparr>envelope := imap_envelope_parse_header E (envelope part_data) name v\<rparr>
      else part_data)"

text \<open>
  \<^verbatim>\<open>parse_header\<close>: \<open>parent\<close> is \<^verbatim>\<open>part->parent\<close>, \<open>None\<close> when it is NULL; the
  header name and value are the \<^verbatim>\<open>name_len\<close> and \<^verbatim>\<open>value_len\<close> bytes given.
\<close>

fun parse_header ::
    "'e externals \<Rightarrow> 'e message_part option \<Rightarrow> 'e message_part \<Rightarrow> string \<Rightarrow> string \<Rightarrow>
     'e message_part" where
  "parse_header E parent (MessagePart fl sz ctx ch) name v =
     (let parent_rfc822 =
            (case parent of
               None \<Rightarrow> False
             | Some p \<Rightarrow> MESSAGE_PART_FLAG_MESSAGE_RFC822 \<in> flags p)
      in
      if \<not> parent_rfc822 \<and> (length name \<le> 8 \<or> \<not> strncasecmp_eq name ''Content-'' 8)
      then MessagePart fl sz ctx ch
      else
        MessagePart fl sz
          (Some (header_dispatch E parent_rfc822 (t_strndup name) v
                   (case ctx of None \<Rightarrow> empty_body_data | Some d \<Rightarrow> d)))
          ch)"

text \<open>
  The header walk of one part (\<^verbatim>\<open>message_parse_header\<close>, not in src/) calls
  \<^verbatim>\<open>parse_header\<close> once per header line, in document order.
\<close>

definition parse_headers ::
    "'e externals \<Rightarrow> 'e message_part option \<Rightarrow> 'e message_part \<Rightarrow> (string \<times> string) list \<Rightarrow>
     'e message_part" where
  "parse_headers E parent part headers =
     fold (\<lambda>(name, v) p. parse_header E parent p name v) headers part"

section \<open>Well-formed trees and the fields of a rendered structure\<close>

text \<open>
  The trees on which no \<^verbatim>\<open>i_assert\<close> of the serializer fails and no NULL string is
  appended: a multipart part has metadata with a subtype, and a message/rfc822 part that
  is not also flagged as text has exactly one child.
\<close>

fun part_ok :: "'e message_part \<Rightarrow> bool" where
  "part_ok (MessagePart fl sz ctx ch) =
     (if MESSAGE_PART_FLAG_MULTIPART \<in> fl then
        (case ctx of None \<Rightarrow> False | Some data \<Rightarrow> content_subtype data \<noteq> None) \<and>
        list_all part_ok ch
      else if MESSAGE_PART_FLAG_TEXT \<in> fl then True
      else if MESSAGE_PART_FLAG_MESSAGE_RFC822 \<in> fl then
        (case ch of [child] \<Rightarrow> part_ok child | _ \<Rightarrow> False)
      else True)"

text \<open>
  The rendered structure as a tree of fields, as the spec describes it: a field is a
  piece of text or the parenthesized structure of a child.  \<open>flat\<close> writes the fields
  with single spaces between them, and nothing between two adjacent children.
\<close>

datatype field = Txt string | Grp "field list"

fun flat :: "field list \<Rightarrow> string" where
  "flat [] = []"
| "flat (Txt s # fs) = s @ (if fs = [] then [] else '' '') @ flat fs"
| "flat (Grp g # fs) =
     ''('' @ flat g @ '')'' @
     (case fs of [] \<Rightarrow> [] | Grp _ # _ \<Rightarrow> [] | Txt _ # _ \<Rightarrow> '' '') @ flat fs"

text \<open>
  Field by field, the first list is a prefix of the second; a child structure is
  compared in the same way.
\<close>

fun fieldwise_prefix :: "field list \<Rightarrow> field list \<Rightarrow> bool" where
  "fieldwise_prefix [] ys = True"
| "fieldwise_prefix (Txt a # xs) (Txt b # ys) = (a = b \<and> fieldwise_prefix xs ys)"
| "fieldwise_prefix (Grp g # xs) (Grp h # ys) = (fieldwise_prefix g h \<and> fieldwise_prefix xs ys)"
| "fieldwise_prefix _ _ = False"

text \<open>The fields that each kind of part writes, by the spec's description of 4.2.\<close>

definition leaf_fields :: "'e body_data \<Rightarrow> message_size \<Rightarrow> field list" where
  \<open>leaf_fields data sz =
     [Txt (NVL (content_type data) ''"text"''), Txt (NVL (content_subtype data) ''"plain"''),
      Txt (params_or_nil (content_type_params data)), Txt (NVL (content_id data) ''NIL''),
      Txt (NVL (content_description data) ''NIL''),
      Txt (NVL (content_transfer_encoding data) ''"8bit"''), Txt (dec (virtual_size sz))]\<close>

definition leaf_extension :: "'e body_data \<Rightarrow> field list" where
  "leaf_extension data =
     [Txt (NVL (content_md5 data) ''NIL'')] @
     (case content_disposition data of
        None \<Rightarrow> [Txt ''NIL'']
      | Some disp \<Rightarrow>
          Txt (''('' @ disp @ '')'') #
          (case content_disposition_params data of
             None \<Rightarrow> []
           | Some dps \<Rightarrow> [Txt (''('' @ dps @ '')'')])) @
     [Txt (params_or_nil (content_language data))]"

definition multipart_extension :: "'e body_data \<Rightarrow> field list" where
  "multipart_extension data =
     [Txt (params_or_nil (content_type_params data)),
      Txt (case content_disposition data of
             None \<Rightarrow> ''NIL''
           | Some disp \<Rightarrow>
               ''('' @ disp @
               (case content_disposition_params data of
                  None \<Rightarrow> []
                | Some dps \<Rightarrow> '' ('' @ dps @ '')'') @ '')''),
      Txt (params_or_nil (content_language data))]"

fun part_fields :: "('e \<Rightarrow> string) \<Rightarrow> bool \<Rightarrow> 'e message_part \<Rightarrow> field list" where
  "part_fields ew extended (MessagePart fl sz ctx ch) =
     (let data = (case ctx of None \<Rightarrow> empty_body_data | Some d \<Rightarrow> d) in
      if MESSAGE_PART_FLAG_MULTIPART \<in> fl then
        (if ch = [] then [Txt EMPTY_BODYSTRUCTURE]
         else map (\<lambda>child. Grp (part_fields ew extended child)) ch) @
        [Txt (NVL (content_subtype data) [])] @
        (if extended then multipart_extension data else [])
      else
        leaf_fields data sz @
        (if MESSAGE_PART_FLAG_TEXT \<in> fl then [Txt (dec (lines sz))]
         else if MESSAGE_PART_FLAG_MESSAGE_RFC822 \<in> fl then
           (case ch of
              [child] \<Rightarrow>
                [Txt (envelope_field ew child), Grp (part_fields ew extended child),
                 Txt (dec (lines sz))]
            | _ \<Rightarrow> [])
         else []) @
        (if extended then leaf_extension data else []))"

definition wrap :: "bool \<Rightarrow> string \<Rightarrow> string" where
  "wrap has_parent s = (if has_parent then ''('' @ s @ '')'' else s)"

section \<open>The grammar of a reducible structure\<close>

text \<open>
  The grammar of the reducer's input, level by level.  A level that begins with nested
  lists is a multipart: every leading list is itself a level and the item after them is
  a quoted string.  Any other level is a leaf: type and subtype strings, a parameter
  field (NIL or a list of pairs of strings), four more items, then the line count atom
  of a text part, or the envelope list, the body list (a level) and the line count atom
  of a message/rfc822 part.

  The spec says of the four items after the parameter field that they are copied
  whatever their kind: \<open>spec_structure_ok\<close> follows these words and asks only that the
  four items are there.  \<open>structure_ok\<close> is the same grammar with one more condition,
  that each of the four items is NIL, an atom or a quoted string.
\<close>

fun params_ok :: "imap_arg list \<Rightarrow> bool" where
  "params_ok [] = True"
| "params_ok (IMAP_ARG_STRING k # IMAP_ARG_STRING v # rest) = params_ok rest"
| "params_ok _ = False"

fun scalar :: "imap_arg \<Rightarrow> bool" where
  "scalar (IMAP_ARG_LIST l) = False"
| "scalar _ = True"

definition params_field :: "imap_arg \<Rightarrow> bool" where
  "params_field p = (case p of IMAP_ARG_LIST ps \<Rightarrow> params_ok ps | IMAP_ARG_NIL \<Rightarrow> True | _ \<Rightarrow> False)"

fun structure_ok :: "imap_arg list \<Rightarrow> bool"
  and subtype_follows :: "imap_arg list \<Rightarrow> bool"
where
  "structure_ok (IMAP_ARG_LIST l # rest) = (structure_ok l \<and> subtype_follows rest)"
| "structure_ok (IMAP_ARG_STRING t # IMAP_ARG_STRING st # p # f1 # f2 # f3 # f4 # rest) =
     (params_field p \<and> scalar f1 \<and> scalar f2 \<and> scalar f3 \<and> scalar f4 \<and>
      (if strcasecmp_eq t ''text'' then
         (case rest of IMAP_ARG_ATOM n # _ \<Rightarrow> True | _ \<Rightarrow> False)
       else if strcasecmp_eq t ''message'' \<and> strcasecmp_eq st ''rfc822'' then
         (case rest of
            IMAP_ARG_LIST env # IMAP_ARG_LIST body # IMAP_ARG_ATOM n # _ \<Rightarrow> structure_ok body
          | _ \<Rightarrow> False)
       else True))"
| "structure_ok _ = False"
| "subtype_follows (IMAP_ARG_LIST l # rest) = (structure_ok l \<and> subtype_follows rest)"
| "subtype_follows (IMAP_ARG_STRING s # _) = True"
| "subtype_follows _ = False"

fun spec_structure_ok :: "imap_arg list \<Rightarrow> bool"
  and spec_subtype_follows :: "imap_arg list \<Rightarrow> bool"
where
  "spec_structure_ok (IMAP_ARG_LIST l # rest) = (spec_structure_ok l \<and> spec_subtype_follows rest)"
| "spec_structure_ok (IMAP_ARG_STRING t # IMAP_ARG_STRING st # p # f1 # f2 # f3 # f4 # rest) =
     (params_field p \<and>
      (if strcasecmp_eq t ''text'' then
         (case rest of IMAP_ARG_ATOM n # _ \<Rightarrow> True | _ \<Rightarrow> False)
       else if strcasecmp_eq t ''message'' \<and> strcasecmp_eq st ''rfc822'' then
         (case rest of
            IMAP_ARG_LIST env # IMAP_ARG_LIST body # IMAP_ARG_ATOM n # _ \<Rightarrow> spec_structure_ok body
          | _ \<Rightarrow> False)
       else True))"
| "spec_structure_ok _ = False"
| "spec_subtype_follows (IMAP_ARG_LIST l # rest) = (spec_structure_ok l \<and> spec_subtype_follows rest)"
| "spec_subtype_follows (IMAP_ARG_STRING s # _) = True"
| "spec_subtype_follows _ = False"

text \<open>What follows the size: the line count atom, or the envelope, body and line count.\<close>

definition line_count :: "imap_arg list \<Rightarrow> string option" where
  "line_count rest = (case rest of IMAP_ARG_ATOM n # _ \<Rightarrow> Some n | _ \<Rightarrow> None)"

definition embedded_message :: "imap_arg list \<Rightarrow> (imap_arg list \<times> imap_arg list \<times> string) option" where
  "embedded_message rest =
     (case rest of
        IMAP_ARG_LIST env # IMAP_ARG_LIST body # IMAP_ARG_ATOM n # _ \<Rightarrow> Some (env, body, n)
      | _ \<Rightarrow> None)"

section \<open>The classifier's results, as the spec describes them\<close>

text \<open>
  The language tags of a Content-Language value: the comment tokens are dropped, the
  remaining tokens are split at the commas, every group that has a token is one tag,
  written in double quotes, and the tags are joined with single spaces.
\<close>

fun split_commas :: "rfc822_token list \<Rightarrow> rfc822_token list list" where
  "split_commas [] = [[]]"
| "split_commas (t # ts) =
     (if token t = CHR '','' then [] # split_commas ts
      else (case split_commas ts of [] \<Rightarrow> [[t]] | g # gs \<Rightarrow> (t # g) # gs))"

definition token_text :: "(char \<Rightarrow> bool) \<Rightarrow> rfc822_token \<Rightarrow> string" where
  "token_text is_string t = (if is_string (token t) then ptr t else [token t])"

definition quoted_tag :: "(char \<Rightarrow> bool) \<Rightarrow> rfc822_token list \<Rightarrow> string" where
  \<open>quoted_tag is_string g = ''"'' @ concat (map (token_text is_string) g) @ ''"''\<close>

fun space_join :: "string list \<Rightarrow> string" where
  "space_join [] = []"
| "space_join [x] = x"
| "space_join (x # y # zs) = x @ '' '' @ space_join (y # zs)"

definition language_tags :: "(char \<Rightarrow> bool) \<Rightarrow> rfc822_token list \<Rightarrow> string" where
  "language_tags is_string tokens =
     space_join (map (quoted_tag is_string)
       (filter (\<lambda>g. g \<noteq> []) (split_commas (filter (\<lambda>t. token t \<noteq> CHR ''('') tokens))))"

text \<open>
  The metadata of a part after a sequence of header lines.  \<open>header_step\<close> is what
  one header line does to the metadata; \<open>frozen d d'\<close> says that every scalar field
  that is set in \<open>d\<close> has the same value in \<open>d'\<close>.
\<close>

definition parent_rfc822 :: "'e message_part option \<Rightarrow> bool" where
  "parent_rfc822 parent =
     (case parent of None \<Rightarrow> False | Some p \<Rightarrow> MESSAGE_PART_FLAG_MESSAGE_RFC822 \<in> flags p)"

definition relevant :: "'e message_part option \<Rightarrow> string \<Rightarrow> bool" where
  "relevant parent name =
     (parent_rfc822 parent \<or> (8 < length name \<and> strncasecmp_eq name ''Content-'' 8))"

definition metadata :: "'e message_part \<Rightarrow> 'e body_data" where
  "metadata part = (case part_context part of None \<Rightarrow> empty_body_data | Some d \<Rightarrow> d)"

definition metadata_after ::
    "'e externals \<Rightarrow> 'e message_part option \<Rightarrow> 'e message_part \<Rightarrow> (string \<times> string) list \<Rightarrow>
     'e body_data" where
  "metadata_after E parent part headers = metadata (parse_headers E parent part headers)"

definition header_step ::
    "'e externals \<Rightarrow> 'e message_part option \<Rightarrow> string \<times> string \<Rightarrow> 'e body_data \<Rightarrow> 'e body_data" where
  "header_step E parent h d =
     (if relevant parent (fst h)
      then header_dispatch E (parent_rfc822 parent) (t_strndup (fst h)) (snd h) d
      else d)"

definition frozen :: "'e body_data \<Rightarrow> 'e body_data \<Rightarrow> bool" where
  "frozen d d' =
     ((content_type d \<noteq> None \<longrightarrow>
         content_type d' = content_type d \<and> content_subtype d' = content_subtype d \<and>
         content_type_params d' = content_type_params d) \<and>
      (content_transfer_encoding d \<noteq> None \<longrightarrow>
         content_transfer_encoding d' = content_transfer_encoding d) \<and>
      (content_id d \<noteq> None \<longrightarrow> content_id d' = content_id d) \<and>
      (content_description d \<noteq> None \<longrightarrow> content_description d' = content_description d) \<and>
      (content_disposition d \<noteq> None \<longrightarrow>
         content_disposition d' = content_disposition d \<and>
         content_disposition_params d' = content_disposition_params d) \<and>
      (content_md5 d \<noteq> None \<longrightarrow> content_md5 d' = content_md5 d))"

definition disposition_inv :: "'e body_data \<Rightarrow> bool" where
  "disposition_inv d = (content_disposition d \<noteq> None \<longrightarrow> content_disposition_params d \<noteq> None)"

text \<open>
  The value that each header stores, as the spec describes it.  The first occurrence of
  a header is the first line whose name, up to a NUL byte, is the header's name in any
  case.  The main value of Content-Type is split at the first \<^verbatim>\<open>/\<close> token into type
  and subtype, the main value of Content-Disposition and of Content-Transfer-Encoding is
  taken whole, and every parameter is written as its name in double quotes, a space and
  its quoted value, the parameters joined by single spaces.  The content id, the
  description and the md5 are the quoted bytes of the line's value.
\<close>

definition first_occurrence :: "string \<Rightarrow> (string \<times> string) list \<Rightarrow> string option" where
  "first_occurrence header hs =
     map_option snd (find (\<lambda>h. strcasecmp_eq (t_strndup (fst h)) header) hs)"

definition type_value :: "'e externals \<Rightarrow> string \<Rightarrow> string" where
  "type_value E v =
     rfc822_tokens_get_value_quoted E
       (takeWhile (\<lambda>t. token t \<noteq> CHR ''/'') (content_tokens E (t_strndup v)))"

definition subtype_value :: "'e externals \<Rightarrow> string \<Rightarrow> string" where
  "subtype_value E v =
     rfc822_tokens_get_value_quoted E
       (drop 1 (dropWhile (\<lambda>t. token t \<noteq> CHR ''/'') (content_tokens E (t_strndup v))))"

definition whole_value :: "'e externals \<Rightarrow> string \<Rightarrow> string" where
  "whole_value E v = rfc822_tokens_get_value_quoted E (content_tokens E (t_strndup v))"

definition pair_text :: "'e externals \<Rightarrow> rfc822_token \<times> rfc822_token list \<Rightarrow> string" where
  \<open>pair_text E p = ''"'' @ ptr (fst p) @ ''" '' @ rfc822_tokens_get_value_quoted E (snd p)\<close>

definition params_value :: "'e externals \<Rightarrow> string \<Rightarrow> string" where
  "params_value E v = space_join (map (pair_text E) (content_params E (t_strndup v)))"

text \<open>
  An instance of the parameters, for the examples: a value is one atom, unless it is
  empty, and quoting puts the bytes between double quotes.
\<close>

definition example_tokens :: "string \<Rightarrow> rfc822_token list" where
  "example_tokens v = (if v = [] then [] else [\<lparr>token = CHR ''A'', ptr = v\<rparr>])"

definition example_quoted :: "string \<Rightarrow> string" where
  \<open>example_quoted v = ''"'' @ v @ ''"''\<close>

definition example_externals :: "unit externals" where
  \<open>example_externals =
     \<lparr>IS_TOKEN_STRING = (\<lambda>c. c \<in> set ''A"(['') ,
      rfc822_tokens_get_value_quoted = (\<lambda>ts. example_quoted (concat (map ptr ts))),
      imap_quote_value = example_quoted,
      imap_envelope_parse_header = (\<lambda>env name v. env),
      content_tokens = example_tokens,
      content_params = (\<lambda>v. [])\<rparr>\<close>

section \<open>Well-formed metadata texts\<close>

text \<open>
  The metadata fields are texts that the classifier has already quoted.  A text is
  well-formed wire text when the argument parser accepts it on its own; a tree has
  well-formed metadata when that holds for every metadata field that is present and
  for the text written for every envelope.
\<close>

definition wire_ok :: "string \<Rightarrow> bool" where
  "wire_ok X = (imap_parser_read_args X \<noteq> None)"

definition field_ok :: "string option \<Rightarrow> bool" where
  "field_ok f = (case f of None \<Rightarrow> True | Some X \<Rightarrow> wire_ok X)"

definition data_ok :: "'e body_data \<Rightarrow> bool" where
  "data_ok d =
     (field_ok (content_type d) \<and> field_ok (content_subtype d) \<and>
      field_ok (content_type_params d) \<and> field_ok (content_transfer_encoding d) \<and>
      field_ok (content_id d) \<and> field_ok (content_description d) \<and>
      field_ok (content_disposition d) \<and> field_ok (content_disposition_params d) \<and>
      field_ok (content_md5 d) \<and> field_ok (content_language d))"


text \<open>
  A text is canonical when the generic writer gives it back from what the parser reads
  in it: a single quoted string, a single scalar (NIL, atom or quoted string), or the
  pairs of a parameter list.  \<open>text_leaf_ok\<close> asks this of the fields of a text leaf
  that the reducer keeps, that the type it writes is \<^verbatim>\<open>text\<close> in any case, and that
  the extended fields are well-formed wire text.
\<close>

definition read_canonical :: "string \<Rightarrow> imap_arg list option" where
  "read_canonical X =
     (case imap_parser_read_args X of
        None \<Rightarrow> None
      | Some args \<Rightarrow> if imap_write_items args = X then Some args else None)"

definition string_field :: "string \<Rightarrow> string option" where
  "string_field X =
     (case read_canonical X of Some [IMAP_ARG_STRING s] \<Rightarrow> Some s | _ \<Rightarrow> None)"

definition scalar_text :: "string \<Rightarrow> bool" where
  "scalar_text X = (case read_canonical X of Some [a] \<Rightarrow> scalar a | _ \<Rightarrow> False)"

definition params_text :: "string \<Rightarrow> bool" where
  "params_text X = (case read_canonical X of Some ps \<Rightarrow> params_ok ps | None \<Rightarrow> False)"

definition text_leaf_ok :: "'e body_data \<Rightarrow> bool" where
  \<open>text_leaf_ok d =
     ((case string_field (NVL (content_type d) ''"text"'') of
         None \<Rightarrow> False
       | Some t \<Rightarrow> strcasecmp_eq t ''text'') \<and>
      string_field (NVL (content_subtype d) ''"plain"'') \<noteq> None \<and>
      (case content_type_params d of None \<Rightarrow> True | Some ps \<Rightarrow> params_text ps) \<and>
      scalar_text (NVL (content_id d) ''NIL'') \<and>
      scalar_text (NVL (content_description d) ''NIL'') \<and>
      scalar_text (NVL (content_transfer_encoding d) ''"8bit"'') \<and>
      field_ok (content_md5 d) \<and> field_ok (content_disposition d) \<and>
      field_ok (content_disposition_params d) \<and> field_ok (content_language d))\<close>






section \<open>Facts about the serializer\<close>

lemma isl_bind:
  "isl (case r of Inl e \<Rightarrow> Inl e | Inr s \<Rightarrow> f s) = (isl r \<or> isl (f (projr r)))"
  by (cases r) auto

lemma render_ok:
  "(\<not> isl (part_write_bodystructure ew hp parts ext)) =
     (parts \<noteq> [] \<and> (hp \<or> tl parts = []) \<and> list_all part_ok parts)"
  "(\<not> isl (part_write_siblings ew hp parts ext)) = list_all part_ok parts"
  "MESSAGE_PART_FLAG_MULTIPART \<in> flags p \<Longrightarrow>
     (\<not> isl (part_write_body_multipart ew p ext)) = part_ok p"
  "MESSAGE_PART_FLAG_MULTIPART \<notin> flags p \<Longrightarrow>
     (\<not> isl (part_write_body ew p ext)) = part_ok p"
proof (induction ew hp parts ext and ew hp parts ext and ew p ext and ew p ext
       rule: part_write_bodystructure_part_write_siblings_part_write_body_multipart_part_write_body.induct)
  case (1 ew has_parent extended)
  then show ?case by simp
next
  case (2 ew has_parent part "next" extended)
  then show ?case by auto
next
  case (3 ew has_parent extended)
  then show ?case by simp
next
  case (4 ew has_parent part "next" extended)
  define r where "r = (if MESSAGE_PART_FLAG_MULTIPART \<in> flags part
            then part_write_body_multipart ew part extended
            else part_write_body ew part extended)"
  have first: "(\<not> isl r) = part_ok part"
    using 4(1,2) by (simp add: r_def)
  have rest: "(\<not> isl (part_write_siblings ew has_parent next extended)) = list_all part_ok next"
    if "r = Inr b" for b
    using 4(3) that by (simp add: r_def)
  have eq: "part_write_siblings ew has_parent (part # next) extended =
     (case r of Inl e \<Rightarrow> Inl e
      | Inr s1 \<Rightarrow>
          (case part_write_siblings ew has_parent next extended of
             Inl e \<Rightarrow> Inl e
           | Inr s2 \<Rightarrow> Inr ((if has_parent then ''('' @ s1 @ '')'' else s1) @ s2)))"
    by (simp add: r_def)
  show ?case
  proof (cases r)
    case (Inl e)
    have "isl (part_write_siblings ew has_parent (part # next) extended)"
      unfolding eq Inl by simp
    with first Inl show ?thesis by simp
  next
    case (Inr b)
    have "isl (part_write_siblings ew has_parent (part # next) extended) =
          isl (part_write_siblings ew has_parent next extended)"
      unfolding eq Inr by (simp add: isl_bind)
    with first rest[OF Inr] Inr show ?thesis by simp
  qed
next
  case (5 ew fl sz ch extended)
  then show ?case by simp
next
  case (6 ew fl sz data ch extended)
  show ?case
  proof (cases "ch = []")
    case True
    with "6.prems" show ?thesis by (simp split: option.splits)
  next
    case False
    with 6 show ?thesis by (auto simp: isl_bind split: option.splits)
  qed
next
  case (7 ew fl sz ctx ch extended)
  show ?case
  proof (cases "MESSAGE_PART_FLAG_TEXT \<in> fl")
    case True
    then show ?thesis using "7.prems" by simp
  next
    case notext: False
    show ?thesis
    proof (cases "MESSAGE_PART_FLAG_MESSAGE_RFC822 \<in> fl")
      case False
      with notext show ?thesis using "7.prems" by simp
    next
      case rfc: True
      show ?thesis
      proof (cases ch)
        case Nil
        with notext rfc show ?thesis using "7.prems" by simp
      next
        case (Cons child rest)
        show ?thesis
        proof (cases "rest = []")
          case False
          with notext rfc Cons show ?thesis using "7.prems" by (auto split: list.splits)
        next
          case True
          have IH: "(\<not> isl (part_write_bodystructure ew True ch extended)) =
                    (ch \<noteq> [] \<and> list_all part_ok ch)"
            using "7.IH"[OF notext rfc Cons] True by simp
          have "isl (part_write_body ew (MessagePart fl sz ctx ch) extended) =
                isl (part_write_bodystructure ew True ch extended)"
            using notext rfc Cons True
            by (simp add: isl_bind del: part_write_bodystructure.simps)
          with IH show ?thesis using notext rfc Cons True "7.prems" by simp
        qed
      qed
    qed
  qed
qed


lemma flat_Cons [simp]:
  "flat [Txt s] = s"
  "flat (Txt s # f # fs) = s @ '' '' @ flat (f # fs)"
  "flat [Grp g] = ''('' @ flat g @ '')''"
  "flat (Grp g # Grp h # fs) = ''('' @ flat g @ '')'' @ flat (Grp h # fs)"
  "flat (Grp g # Txt t # fs) = ''('' @ flat g @ '')'' @ '' '' @ flat (Txt t # fs)"
  by simp_all

declare flat.simps(2,3) [simp del]

lemma flat_app_Txt:
  "xs \<noteq> [] \<Longrightarrow> flat (xs @ Txt t # ys) = flat xs @ '' '' @ flat (Txt t # ys)"
proof (induction xs rule: flat.induct)
  case 1
  then show ?case by simp
next
  case (2 s fs)
  then show ?case by (cases fs) simp_all
next
  case (3 g fs)
  then show ?case
  proof (cases fs)
    case Nil
    then show ?thesis by simp
  next
    case (Cons f fs')
    with 3 show ?thesis by (cases f) simp_all
  qed
qed

lemma flat_groups:
  "ch \<noteq> [] \<Longrightarrow>
   flat (map (\<lambda>c. Grp (f c)) ch @ Txt t # rest) =
     concat (map (\<lambda>c. ''('' @ flat (f c) @ '')'') ch) @ '' '' @ flat (Txt t # rest)"
proof (induction ch)
  case Nil
  then show ?case by simp
next
  case (Cons c cs)
  then show ?case by (cases cs) simp_all
qed

lemma leaf_fields_not_Nil: "leaf_fields data sz \<noteq> []"
  by (simp add: leaf_fields_def)

lemma flat_leaf_fields: "flat (leaf_fields data sz) = body_fields data sz"
  by (simp add: leaf_fields_def body_fields_def)

lemma flat_Txt_leaf_extension:
  "flat (Txt t # leaf_extension data) = t @ body_extended data"
  by (simp add: leaf_extension_def body_extended_def split: option.splits)

lemma flat_app_leaf_extension:
  "xs \<noteq> [] \<Longrightarrow> flat (xs @ leaf_extension data) = flat xs @ body_extended data"
  by (simp add: leaf_extension_def body_extended_def flat_app_Txt split: option.splits)

lemma flat_Txt_multipart_extension:
  "flat (Txt t # multipart_extension data) = t @ multipart_extended data"
  by (simp add: multipart_extension_def multipart_extended_def)

lemma render_fields:
  "part_write_bodystructure ew hp parts ext = Inr s \<Longrightarrow>
     s = concat (map (\<lambda>p. wrap hp (flat (part_fields ew ext p))) parts)"
  "part_write_siblings ew hp parts ext = Inr s \<Longrightarrow>
     s = concat (map (\<lambda>p. wrap hp (flat (part_fields ew ext p))) parts)"
  "MESSAGE_PART_FLAG_MULTIPART \<in> flags p \<Longrightarrow> part_write_body_multipart ew p ext = Inr s \<Longrightarrow>
     s = flat (part_fields ew ext p)"
  "MESSAGE_PART_FLAG_MULTIPART \<notin> flags p \<Longrightarrow> part_write_body ew p ext = Inr s \<Longrightarrow>
     s = flat (part_fields ew ext p)"
proof (induction ew hp parts ext and ew hp parts ext and ew p ext and ew p ext
       arbitrary: s and s and s and s
       rule: part_write_bodystructure_part_write_siblings_part_write_body_multipart_part_write_body.induct)
  case (1 ew has_parent extended)
  then show ?case by simp
next
  case (2 ew has_parent part "next" extended)
  then show ?case by (simp split: if_splits del: part_write_siblings.simps)
next
  case (3 ew has_parent extended)
  then show ?case by simp
next
  case (4 ew has_parent part "next" extended)
  define r where "r = (if MESSAGE_PART_FLAG_MULTIPART \<in> flags part
            then part_write_body_multipart ew part extended
            else part_write_body ew part extended)"
  from "4.prems" obtain s1 s2 where r: "r = Inr s1"
    and n: "part_write_siblings ew has_parent next extended = Inr s2"
    and s: "s = wrap has_parent s1 @ s2"
    by (auto simp: r_def wrap_def split: sum.splits if_splits)
  have "s1 = flat (part_fields ew extended part)"
    using "4.IH"(1,2) r by (auto simp: r_def split: if_splits)
  moreover have "s2 = concat (map (\<lambda>p. wrap has_parent (flat (part_fields ew extended p))) next)"
    using "4.IH"(3) r n by (simp add: r_def)
  ultimately show ?case using s by simp
next
  case (5 ew fl sz ch extended)
  then show ?case by simp
next
  case (6 ew fl sz data ch extended)
  show ?case
  proof (cases "ch = []")
    case True
    with "6.prems" show ?thesis
      by (auto simp: NVL_def flat_Txt_multipart_extension split: option.splits if_splits)
  next
    case False
    from "6.prems" False obtain s1 subtype where
      c: "part_write_bodystructure ew True ch extended = Inr s1"
      and st: "content_subtype data = Some subtype"
      and s: "s = s1 @ '' '' @ subtype @ (if extended then multipart_extended data else [])"
      by (auto split: sum.splits option.splits if_splits)
    have "s1 = concat (map (\<lambda>p. wrap True (flat (part_fields ew extended p))) ch)"
      using "6.IH"[OF False c] .
    then show ?thesis using s st False "6.prems"(1)
      by (simp add: flat_groups wrap_def NVL_def flat_Txt_multipart_extension)
  qed
next
  case (7 ew fl sz ctx ch extended)
  note lf = leaf_fields_not_Nil flat_leaf_fields flat_app_Txt flat_Txt_leaf_extension
    flat_app_leaf_extension Let_def
  show ?case
  proof (cases "MESSAGE_PART_FLAG_TEXT \<in> fl")
    case True
    with "7.prems" show ?thesis
      by (cases extended) (auto simp: lf)
  next
    case notext: False
    show ?thesis
    proof (cases "MESSAGE_PART_FLAG_MESSAGE_RFC822 \<in> fl")
      case False
      with notext "7.prems" show ?thesis
        by (cases extended) (auto simp: lf)
    next
      case rfc: True
      from "7.prems" notext rfc obtain child s1 where
        ch: "ch = [child]"
        and c: "part_write_bodystructure ew True ch extended = Inr s1"
        and s: "s = body_fields (case ctx of None \<Rightarrow> empty_body_data | Some d \<Rightarrow> d) sz @
                  '' '' @ envelope_field ew child @ '' '' @ s1 @ '' '' @ dec (lines sz) @
                  (if extended
                   then body_extended (case ctx of None \<Rightarrow> empty_body_data | Some d \<Rightarrow> d)
                   else [])"
        by (auto split: sum.splits list.splits if_splits simp del: part_write_bodystructure.simps)
      have "s1 = concat (map (\<lambda>p. wrap True (flat (part_fields ew extended p))) ch)"
        using "7.IH"[OF notext rfc _ _ c] ch by simp
      then show ?thesis using s ch notext rfc "7.prems"(1)
        by (cases extended) (simp_all add: lf wrap_def)
    qed
  qed
qed


lemma fieldwise_prefix_append:
  "fieldwise_prefix xs ys \<Longrightarrow> fieldwise_prefix xs (ys @ zs)"
  by (induction xs ys rule: fieldwise_prefix.induct) auto

lemma fieldwise_prefix_groups:
  "(\<And>c. c \<in> set ch \<Longrightarrow> fieldwise_prefix (f c) (g c)) \<Longrightarrow> fieldwise_prefix xs ys \<Longrightarrow>
   fieldwise_prefix (map (\<lambda>c. Grp (f c)) ch @ xs) (map (\<lambda>c. Grp (g c)) ch @ ys)"
  by (induction ch) auto

lemma fieldwise_prefix_leaf:
  "fieldwise_prefix xs ys \<Longrightarrow>
   fieldwise_prefix (leaf_fields data sz @ xs) (leaf_fields data sz @ ys)"
  by (simp add: leaf_fields_def)

lemma fieldwise_prefix_leaf_only:
  "fieldwise_prefix (leaf_fields data sz) (leaf_fields data sz @ ys)"
  by (simp add: leaf_fields_def)

lemma part_fields_prefix:
  "fieldwise_prefix (part_fields ew False p) (part_fields ew True p)"
proof (induction ew "False" p rule: part_fields.induct)
  case (1 ew fl sz ctx ch)
  show ?case
  proof (cases "MESSAGE_PART_FLAG_MULTIPART \<in> fl")
    case True
    then show ?thesis
      using 1(1) fieldwise_prefix_groups[of ch "part_fields ew False" "part_fields ew True"
          "[Txt (NVL (content_subtype (case ctx of None \<Rightarrow> empty_body_data | Some d \<Rightarrow> d)) [])]"]
      by (simp add: Let_def)
  next
    case False
    then show ?thesis
      using 1(2)
      by (auto simp: Let_def fieldwise_prefix_leaf_only intro!: fieldwise_prefix_leaf
            split: list.splits)
  qed
qed

lemma part_fields_longer:
  "length (part_fields ew False p) < length (part_fields ew True p)"
  by (cases p) (simp add: Let_def multipart_extension_def leaf_extension_def split: list.splits option.splits)


lemma get_ok: "(\<exists>s. part_get_bodystructure ew p ext = Inr s) = part_ok p"
proof -
  have "(\<exists>s. part_get_bodystructure ew p ext = Inr s) = (\<not> isl (part_get_bodystructure ew p ext))"
    by (cases "part_get_bodystructure ew p ext") auto
  then show ?thesis
    unfolding part_get_bodystructure_def by (simp add: render_ok(1) del: part_write_bodystructure.simps)
qed

section \<open>Facts about the reducer\<close>

lemma write_params_items:
  "write_params ps = (if params_ok ps then Some (imap_write_items ps) else None)"
  by (induction ps rule: write_params.induct) auto

lemma imap_write_items_Cons:
  "imap_write_items (a # b # rest) = imap_write_items [a] @ '' '' @ imap_write_items (b # rest)"
  by simp

lemma copy_fields_Suc:
  "copy_fields (Suc i) (arg # args) =
     (if scalar arg then
        (case copy_fields i args of None \<Rightarrow> None
         | Some (r, rest) \<Rightarrow> Some ('' '' @ imap_write_items [arg] @ r, rest))
      else None)"
  by (cases arg) (auto split: option.splits)

lemma copy_fields_four:
  "copy_fields 4 (f1 # f2 # f3 # f4 # rest) =
     (if scalar f1 \<and> scalar f2 \<and> scalar f3 \<and> scalar f4
      then Some ('' '' @ imap_write_items [f1, f2, f3, f4], rest) else None)"
  unfolding numeral_eq_Suc pred_numeral_simps BitM.simps num.simps
  by (simp only: copy_fields_Suc copy_fields.simps(1) imap_write_items_Cons split: if_splits)
     simp

lemma leaf_head_full:
  "leaf_head (IMAP_ARG_STRING t # IMAP_ARG_STRING st # p # f1 # f2 # f3 # f4 # rest) =
     (if params_field p \<and> scalar f1 \<and> scalar f2 \<and> scalar f3 \<and> scalar f4 then
        Some (strcasecmp_eq t ''text'',
              strcasecmp_eq t ''message'' \<and> strcasecmp_eq st ''rfc822'',
              imap_write_items [IMAP_ARG_STRING t, IMAP_ARG_STRING st, p, f1, f2, f3, f4], rest)
      else None)"
  by (cases p) (simp_all add: leaf_head_def params_field_def copy_fields_four write_params_items)


lemma copy_fields_short: "length args < n \<Longrightarrow> copy_fields n args = None"
proof (induction n args rule: copy_fields.induct)
  case (3 i arg args)
  then show ?case by (cases arg) (auto split: option.splits)
qed auto

lemma leaf_head_short:
  assumes len: "length args < 7"
  shows "leaf_head args = None"
proof (cases args)
  case Nil
  then show ?thesis by (simp add: leaf_head_def)
next
  case c1: (Cons a as)
  show ?thesis
  proof (cases as)
    case Nil
    with c1 show ?thesis by (simp add: leaf_head_def split: imap_arg.splits)
  next
    case c2: (Cons b bs)
    show ?thesis
    proof (cases bs)
      case Nil
      with c1 c2 show ?thesis by (simp add: leaf_head_def split: imap_arg.splits)
    next
      case (Cons p ps)
      have "copy_fields 4 ps = None"
        using len c1 c2 Cons by (intro copy_fields_short) simp
      then show ?thesis using c1 c2 Cons
        by (simp add: leaf_head_def split: imap_arg.splits option.splits)
    qed
  qed
qed

lemma leaf_head_not_string:
  "(\<And>t. a \<noteq> IMAP_ARG_STRING t) \<Longrightarrow> leaf_head (a # args) = None"
  "(\<And>t. b \<noteq> IMAP_ARG_STRING t) \<Longrightarrow> leaf_head (a # b # args) = None"
  by (simp_all add: leaf_head_def split: imap_arg.splits)

lemma leading_scalar:
  "scalar a \<Longrightarrow> parse_leading_lists m (a # args) = parse_after_lists m (a # args)"
  by (cases a) (auto simp: parse_leading_lists.simps)

lemma leading_list:
  "parse_leading_lists m (IMAP_ARG_LIST l # args) =
     (case imap_parse_bodystructure_args l of
        None \<Rightarrow> None
      | Some t \<Rightarrow>
          (case parse_leading_lists True args of
             None \<Rightarrow> None
           | Some r \<Rightarrow> Some (''('' @ t @ '')'' @ r)))"
  by (simp add: parse_leading_lists.simps)

lemma leading_nil: "parse_leading_lists m [] = parse_after_lists m []"
  by (simp add: parse_leading_lists.simps)


lemma after_lists_True:
  "parse_after_lists True args = (case args of IMAP_ARG_STRING s # x \<Rightarrow> Some ('' '' @ imap_write_items [IMAP_ARG_STRING s]) | _ \<Rightarrow> None)"
  by (simp add: parse_after_lists.simps split: list.splits imap_arg.splits)

lemma after_lists_leaf_None:
  "leaf_head args = None \<Longrightarrow> parse_after_lists False args = None"
  by (simp add: parse_after_lists.simps)

lemma reduce_scalar_first:
  "scalar a \<Longrightarrow> imap_parse_bodystructure_args (a # args) = parse_after_lists False (a # args)"
  by (simp add: imap_parse_bodystructure_args.simps leading_scalar)

lemma case_line_count:
  "(case rest of IMAP_ARG_ATOM n # x \<Rightarrow> f n | _ \<Rightarrow> d) =
   (case line_count rest of None \<Rightarrow> d | Some n \<Rightarrow> f n)"
  by (simp add: line_count_def split: list.splits imap_arg.splits)

lemma case_embedded_message:
  "(case rest of IMAP_ARG_LIST env # IMAP_ARG_LIST body # IMAP_ARG_ATOM n # x \<Rightarrow> f env body n
    | _ \<Rightarrow> d) =
   (case embedded_message rest of None \<Rightarrow> d | Some (env, body, n) \<Rightarrow> f env body n)"
  by (simp add: embedded_message_def split: list.splits imap_arg.splits)

lemma reduce_leaf:
  "imap_parse_bodystructure_args
     (IMAP_ARG_STRING t # IMAP_ARG_STRING st # p # f1 # f2 # f3 # f4 # rest) =
     (if \<not> (params_field p \<and> scalar f1 \<and> scalar f2 \<and> scalar f3 \<and> scalar f4) then None
      else if strcasecmp_eq t ''text'' then
        (case line_count rest of
           Some n \<Rightarrow>
             Some (imap_write_items [IMAP_ARG_STRING t, IMAP_ARG_STRING st, p, f1, f2, f3, f4,
                                     IMAP_ARG_ATOM n])
         | None \<Rightarrow> None)
      else if strcasecmp_eq t ''message'' \<and> strcasecmp_eq st ''rfc822'' then
        (case embedded_message rest of
           Some (env, body, n) \<Rightarrow>
             (case imap_parse_bodystructure_args body of
                None \<Rightarrow> None
              | Some b \<Rightarrow>
                  Some (imap_write_items [IMAP_ARG_STRING t, IMAP_ARG_STRING st, p, f1, f2, f3, f4,
                                          IMAP_ARG_LIST env] @ '' '' @ b @ '' '' @ n))
         | None \<Rightarrow> None)
      else Some (imap_write_items [IMAP_ARG_STRING t, IMAP_ARG_STRING st, p, f1, f2, f3, f4]))"
  by (simp add: reduce_scalar_first parse_after_lists.simps leaf_head_full case_line_count
        case_embedded_message split: option.splits)

lemma structure_ok_leaf:
  "structure_ok (IMAP_ARG_STRING t # IMAP_ARG_STRING st # p # f1 # f2 # f3 # f4 # rest) =
     (params_field p \<and> scalar f1 \<and> scalar f2 \<and> scalar f3 \<and> scalar f4 \<and>
      (if strcasecmp_eq t ''text'' then line_count rest \<noteq> None
       else if strcasecmp_eq t ''message'' \<and> strcasecmp_eq st ''rfc822'' then
         (case embedded_message rest of None \<Rightarrow> False | Some (env, body, n) \<Rightarrow> structure_ok body)
       else True))"
  by (simp add: case_line_count case_embedded_message split: option.splits)


lemma embedded_message_Some:
  "embedded_message rest = Some (env, body, n) \<Longrightarrow>
     \<exists>x. rest = IMAP_ARG_LIST env # IMAP_ARG_LIST body # IMAP_ARG_ATOM n # x"
  by (auto simp: embedded_message_def split: list.splits imap_arg.splits)

lemma reduce_not_leaf:
  "scalar a \<Longrightarrow> leaf_head (a # args) = None \<Longrightarrow> imap_parse_bodystructure_args (a # args) = None"
  by (simp add: reduce_scalar_first after_lists_leaf_None)

lemma reduce_nil: "imap_parse_bodystructure_args [] = None"
  by (simp add: imap_parse_bodystructure_args.simps leading_nil after_lists_leaf_None
        leaf_head_short)

lemma reduce_ok_iff:
  "structure_ok args = (imap_parse_bodystructure_args args \<noteq> None)"
  "subtype_follows rest = (parse_leading_lists True rest \<noteq> None)"
proof (induction args and rest rule: structure_ok_subtype_follows.induct)
  case (1 l rest)
  then show ?case
    by (simp add: imap_parse_bodystructure_args.simps leading_list split: option.splits)
next
  case (2 t st p f1 f2 f3 f4 rest)
  have IH: "structure_ok body = (imap_parse_bodystructure_args body \<noteq> None)"
    if "\<not> strcasecmp_eq t ''text''" "strcasecmp_eq t ''message'' \<and> strcasecmp_eq st ''rfc822''"
       "embedded_message rest = Some (env, body, n)" for env body n
    using that 2 embedded_message_Some[of rest env body n] by blast
  show ?case
    unfolding structure_ok_leaf reduce_leaf
    using IH by (auto split: option.splits)
qed (simp_all add: reduce_nil reduce_not_leaf leaf_head_short leaf_head_not_string
       after_lists_True leading_scalar leading_nil leading_list split: option.splits)

lemma structure_ok_spec:
  "structure_ok args \<Longrightarrow> spec_structure_ok args"
  "subtype_follows rest \<Longrightarrow> spec_subtype_follows rest"
proof (induction args and rest rule: structure_ok_subtype_follows.induct)
  case (2 t st p f1 f2 f3 f4 rest)
  then show ?case
    by (auto split: if_splits list.splits imap_arg.splits)
qed simp_all

section \<open>Facts about the classifier\<close>

lemma split_commas_not_Nil: "split_commas ts \<noteq> []"
  by (induction ts) (auto split: list.splits)

definition tags_after :: "string list \<Rightarrow> string" where
  "tags_after qs = concat (map (\<lambda>q. '' '' @ q) qs)"

lemma space_join_Cons: "space_join (q # qs) = q @ tags_after qs"
  by (induction qs arbitrary: q) (auto simp: tags_after_def)

lemma language_loop_general:
  "language_loop is_string tokens s True =
     (case split_commas (filter (\<lambda>t. token t \<noteq> CHR ''('') tokens) of
        g # gs \<Rightarrow> s @ concat (map (token_text is_string) g) @ [CHR 0x22] @
                 tags_after (map (quoted_tag is_string) (filter (\<lambda>g. g \<noteq> []) gs)))"
  "language_loop is_string tokens s False =
     (let qs = map (quoted_tag is_string)
                 (filter (\<lambda>g. g \<noteq> []) (split_commas (filter (\<lambda>t. token t \<noteq> CHR ''('') tokens)))
      in if s = [] then space_join qs else s @ tags_after qs)"
proof (induction tokens arbitrary: s)
  case Nil
  { case 1 show ?case by (simp add: tags_after_def) }
  { case 2 show ?case by (simp add: tags_after_def) }
next
  case (Cons t ts)
  obtain g gs where sp: "split_commas (filter (\<lambda>t. token t \<noteq> CHR ''('') ts) = g # gs"
    using split_commas_not_Nil by (cases "split_commas (filter (\<lambda>t. token t \<noteq> CHR ''('') ts)") auto
  { case 1
    show ?case
      using Cons.IH(1)[of s] Cons.IH(2)[of "s @ [CHR 0x22]"]
            Cons.IH(1)[of "s @ token_text is_string t"] sp
      by (auto simp: Let_def token_text_def tags_after_def quoted_tag_def [abs_def] space_join_Cons)
  }
  { case 2
    show ?case
      using Cons.IH(2)[of s] sp
            Cons.IH(1)[of "(if s \<noteq> [] then s @ '' '' else s) @ [CHR 0x22] @ token_text is_string t"]
      by (auto simp: Let_def token_text_def tags_after_def quoted_tag_def [abs_def] space_join_Cons)
  }
qed

lemma language_loop_tags:
  "language_loop is_string tokens [] False = language_tags is_string tokens"
  by (simp add: language_loop_general(2) language_tags_def Let_def)

lemma parse_header_context:
  "part_context (parse_header E parent part name v) =
     (if \<not> (case parent of None \<Rightarrow> False | Some p \<Rightarrow> MESSAGE_PART_FLAG_MESSAGE_RFC822 \<in> flags p) \<and>
         (length name \<le> 8 \<or> \<not> strncasecmp_eq name ''Content-'' 8)
      then part_context part
      else Some (header_dispatch E
                   (case parent of None \<Rightarrow> False | Some p \<Rightarrow> MESSAGE_PART_FLAG_MESSAGE_RFC822 \<in> flags p)
                   (t_strndup name) v
                   (case part_context part of None \<Rightarrow> empty_body_data | Some d \<Rightarrow> d)))"
  by (cases part) (simp add: Let_def)

lemma fold_params_str:
  "\<exists>s. fold (\<lambda>(n, vs). parse_save_params_list E n vs) ps d = d\<lparr>str := s\<rparr>"
proof (induction ps arbitrary: d)
  case Nil
  have "d = d\<lparr>str := str d\<rparr>" by simp
  then show ?case by (metis fold_simps(1))
next
  case (Cons p ps)
  obtain n vs where p: "p = (n, vs)" by (cases p)
  obtain s0 where s0: "parse_save_params_list E n vs d = d\<lparr>str := s0\<rparr>"
    by (simp add: parse_save_params_list_def)
  obtain s where "fold (\<lambda>(n, vs). parse_save_params_list E n vs) ps (d\<lparr>str := s0\<rparr>) =
                  d\<lparr>str := s0\<rparr>\<lparr>str := s\<rparr>"
    using Cons[of "d\<lparr>str := s0\<rparr>"] by blast
  then have "fold (\<lambda>(n, vs). parse_save_params_list E n vs) (p # ps) d = d\<lparr>str := s\<rparr>"
    using p s0 by simp
  then show ?case by blast
qed

lemma dispatch_frozen:
  "disposition_inv d \<Longrightarrow>
   frozen d (header_dispatch E pr name v d) \<and> disposition_inv (header_dispatch E pr name v d)"
proof -
  assume inv: "disposition_inv d"
  obtain s1 where s1: "fold (\<lambda>(n, vs). parse_save_params_list E n vs) (content_params E (t_strndup v))
        (parse_content_type E (content_tokens E (t_strndup v)) (d\<lparr>str := []\<rparr>)) =
        (parse_content_type E (content_tokens E (t_strndup v)) (d\<lparr>str := []\<rparr>))\<lparr>str := s1\<rparr>"
    using fold_params_str by blast
  obtain s2 where s2: "fold (\<lambda>(n, vs). parse_save_params_list E n vs) (content_params E (t_strndup v))
        (parse_content_disposition E (content_tokens E (t_strndup v)) (d\<lparr>str := []\<rparr>)) =
        (parse_content_disposition E (content_tokens E (t_strndup v)) (d\<lparr>str := []\<rparr>))\<lparr>str := s2\<rparr>"
    using fold_params_str by blast
  show ?thesis
    using inv s1 s2
    by (auto simp: header_dispatch_def message_content_parse_header_def frozen_def
          disposition_inv_def parse_content_type_def parse_content_disposition_def
          parse_content_transfer_encoding_def parse_content_language_def Let_def)
qed

lemma metadata_parse_header:
  "metadata (parse_header E parent part name v) = header_step E parent (name, v) (metadata part)"
  by (cases part)
     (auto simp: metadata_def header_step_def relevant_def parent_rfc822_def Let_def)

lemma metadata_after_fold:
  "metadata_after E parent part hs = fold (header_step E parent) hs (metadata part)"
proof (induction hs arbitrary: part)
  case Nil
  then show ?case by (simp add: metadata_after_def parse_headers_def)
next
  case (Cons h hs)
  obtain n v where h: "h = (n, v)" by (cases h)
  have "metadata_after E parent part (h # hs) =
        metadata_after E parent (parse_header E parent part n v) hs"
    by (simp add: metadata_after_def parse_headers_def h del: parse_header.simps)
  then show ?case
    using Cons[of "parse_header E parent part n v"] h
    by (simp add: metadata_parse_header del: parse_header.simps)
qed

lemma frozen_refl: "frozen d d"
  by (simp add: frozen_def)

lemma frozen_trans: "frozen a b \<Longrightarrow> frozen b c \<Longrightarrow> frozen a c"
  by (auto simp: frozen_def)

lemma step_frozen:
  "disposition_inv d \<Longrightarrow>
   frozen d (header_step E parent h d) \<and> disposition_inv (header_step E parent h d)"
  by (simp add: header_step_def dispatch_frozen frozen_refl)

lemma fold_frozen:
  "disposition_inv d \<Longrightarrow>
   frozen d (fold (header_step E parent) hs d) \<and>
   disposition_inv (fold (header_step E parent) hs d)"
proof (induction hs arbitrary: d)
  case Nil
  then show ?case by (simp add: frozen_refl)
next
  case (Cons h hs)
  from step_frozen[OF Cons.prems, of E parent h]
  have a: "frozen d (header_step E parent h d)" and b: "disposition_inv (header_step E parent h d)"
    by simp_all
  from Cons.IH[OF b] a show ?case
    by (auto intro: frozen_trans)
qed

lemma language_name_relevant:
  assumes "strcasecmp_eq (t_strndup name) ''Content-Language''"
  shows "relevant parent name"
proof -
  let ?n = "t_strndup name"
  have low: "map i_tolower ?n = ''content-language''"
    using assms by (simp add: strcasecmp_eq_def i_tolower_def)
  have "length (map i_tolower ?n) = 16"
    by (simp only: low) simp
  then have len: "length ?n = 16" by simp
  have pre: "?n = take 16 name"
    by (metis len t_strndup_def takeWhile_eq_take)
  have "length ?n \<le> length name"
    unfolding t_strndup_def by (rule length_takeWhile_le)
  with len have l: "16 \<le> length name" by simp
  have "take 8 ?n = take 8 name"
    by (simp only: pre take_take) simp
  then have "map i_tolower (take 8 name) = take 8 (map i_tolower ?n)"
    by (simp add: take_map)
  then have "strncasecmp_eq name ''Content-'' 8"
    by (simp add: low strncasecmp_eq_def i_tolower_def)
  with l show ?thesis by (simp add: relevant_def)
qed

lemma language_dispatch:
  assumes "strcasecmp_eq name ''Content-Language''"
  shows "header_dispatch E pr name v d = parse_content_language E (content_tokens E (t_strndup v)) d"
proof -
  have low: "map i_tolower name = ''content-language''"
    using assms by (simp add: strcasecmp_eq_def i_tolower_def)
  have "\<not> strcasecmp_eq name ''Content-Type''" "\<not> strcasecmp_eq name ''Content-Transfer-Encoding''"
    "\<not> strcasecmp_eq name ''Content-ID''" "\<not> strcasecmp_eq name ''Content-Description''"
    "\<not> strcasecmp_eq name ''Content-Disposition''"
    using low by (simp_all add: strcasecmp_eq_def i_tolower_def)
  with assms show ?thesis
    by (simp add: header_dispatch_def message_content_parse_header_def)
qed

lemma fold_params_value:
  "fold (\<lambda>(n, vs). parse_save_params_list E n vs) ps d =
     d\<lparr>str := str d @ (if str d = [] then space_join (map (pair_text E) ps)
                       else tags_after (map (pair_text E) ps))\<rparr>"
proof (induction ps arbitrary: d)
  case Nil
  then show ?case by (simp add: tags_after_def)
next
  case (Cons p ps)
  obtain n vs where p: "p = (n, vs)" by (cases p)
  let ?d1 = "parse_save_params_list E n vs d"
  have s1: "str ?d1 = (if str d \<noteq> [] then str d @ '' '' else []) @ pair_text E p"
    by (simp add: parse_save_params_list_def pair_text_def p)
  have ne: "str ?d1 \<noteq> []"
    by (simp add: s1 pair_text_def)
  have d1: "?d1 = d\<lparr>str := str ?d1\<rparr>"
    by (simp add: parse_save_params_list_def)
  have "fold (\<lambda>(n, vs). parse_save_params_list E n vs) (p # ps) d =
        ?d1\<lparr>str := str ?d1 @ tags_after (map (pair_text E) ps)\<rparr>"
    using Cons[of ?d1] ne by (simp add: p)
  also have "\<dots> = d\<lparr>str := str ?d1 @ tags_after (map (pair_text E) ps)\<rparr>"
    by (simp add: parse_save_params_list_def)
  finally show ?case
    by (simp add: s1 space_join_Cons tags_after_def)
qed

lemma header_names:
  "strcasecmp_eq name ''Content-Type'' = (map i_tolower name = ''content-type'')"
  "strcasecmp_eq name ''Content-Transfer-Encoding'' = (map i_tolower name = ''content-transfer-encoding'')"
  "strcasecmp_eq name ''Content-ID'' = (map i_tolower name = ''content-id'')"
  "strcasecmp_eq name ''Content-Description'' = (map i_tolower name = ''content-description'')"
  "strcasecmp_eq name ''Content-Disposition'' = (map i_tolower name = ''content-disposition'')"
  "strcasecmp_eq name ''Content-Language'' = (map i_tolower name = ''content-language'')"
  "strcasecmp_eq name ''Content-MD5'' = (map i_tolower name = ''content-md5'')"
  by (simp_all add: strcasecmp_eq_def i_tolower_def)

lemma content_type_split:
  "parse_content_type E (content_tokens E (t_strndup v)) d =
     d\<lparr>content_type := Some (type_value E v), content_subtype := Some (subtype_value E v)\<rparr>"
proof -
  let ?ts = "content_tokens E (t_strndup v)"
  let ?P = "\<lambda>t. token t \<noteq> CHR ''/''"
  have a: "take (length (takeWhile ?P ?ts)) ?ts = takeWhile ?P ?ts"
    by (rule takeWhile_eq_take [symmetric])
  have "drop (length (takeWhile ?P ?ts) + 1) ?ts = drop 1 (drop (length (takeWhile ?P ?ts)) ?ts)"
    by simp
  also have "drop (length (takeWhile ?P ?ts)) ?ts = dropWhile ?P ?ts"
    by (rule dropWhile_eq_drop [symmetric])
  finally have b: "drop (length (takeWhile ?P ?ts) + 1) ?ts = drop 1 (dropWhile ?P ?ts)" .
  show ?thesis
    unfolding parse_content_type_def type_value_def subtype_value_def Let_def
    by (simp only: a b)
qed

lemma type_header:
  "message_content_parse_header E (t_strndup v) (parse_content_type E)
     (Some (parse_save_params_list E)) (d\<lparr>str := []\<rparr>) =
   d\<lparr>str := params_value E v, content_type := Some (type_value E v),
     content_subtype := Some (subtype_value E v)\<rparr>"
  by (simp add: message_content_parse_header_def content_type_split fold_params_value
        params_value_def)

lemma disposition_header:
  "message_content_parse_header E (t_strndup v) (parse_content_disposition E)
     (Some (parse_save_params_list E)) (d\<lparr>str := []\<rparr>) =
   d\<lparr>str := params_value E v, content_disposition := Some (whole_value E v)\<rparr>"
  by (simp add: message_content_parse_header_def parse_content_disposition_def
        fold_params_value params_value_def whole_value_def)

lemma encoding_header:
  "message_content_parse_header E (t_strndup v) (parse_content_transfer_encoding E) None d =
   d\<lparr>content_transfer_encoding := Some (whole_value E v)\<rparr>"
  by (simp add: message_content_parse_header_def parse_content_transfer_encoding_def
        whole_value_def)

lemma language_header:
  "\<exists>l. message_content_parse_header E (t_strndup v) (parse_content_language E) None d =
       d\<lparr>content_language := l\<rparr>"
proof (cases "content_tokens E (t_strndup v) = []")
  case True
  have "d = d\<lparr>content_language := content_language d\<rparr>" by simp
  with True show ?thesis
    by (metis message_content_parse_header_def option.simps(4) parse_content_language_def)
next
  case False
  then show ?thesis
    by (auto simp: message_content_parse_header_def parse_content_language_def)
qed

lemma dispatch_fields:
  "content_type (header_dispatch E pr name v d) =
     (if strcasecmp_eq name ''Content-Type'' \<and> content_type d = None
      then Some (type_value E v) else content_type d)"
  "content_subtype (header_dispatch E pr name v d) =
     (if strcasecmp_eq name ''Content-Type'' \<and> content_type d = None
      then Some (subtype_value E v) else content_subtype d)"
  "content_type_params (header_dispatch E pr name v d) =
     (if strcasecmp_eq name ''Content-Type'' \<and> content_type d = None
      then Some (params_value E v) else content_type_params d)"
  "content_transfer_encoding (header_dispatch E pr name v d) =
     (if strcasecmp_eq name ''Content-Transfer-Encoding'' \<and> content_transfer_encoding d = None
      then Some (whole_value E v) else content_transfer_encoding d)"
  "content_id (header_dispatch E pr name v d) =
     (if strcasecmp_eq name ''Content-ID'' \<and> content_id d = None
      then Some (imap_quote_value E v) else content_id d)"
  "content_description (header_dispatch E pr name v d) =
     (if strcasecmp_eq name ''Content-Description'' \<and> content_description d = None
      then Some (imap_quote_value E v) else content_description d)"
  "content_disposition (header_dispatch E pr name v d) =
     (if strcasecmp_eq name ''Content-Disposition'' \<and> content_disposition_params d = None
      then Some (whole_value E v) else content_disposition d)"
  "content_disposition_params (header_dispatch E pr name v d) =
     (if strcasecmp_eq name ''Content-Disposition'' \<and> content_disposition_params d = None
      then Some (params_value E v) else content_disposition_params d)"
  "content_md5 (header_dispatch E pr name v d) =
     (if strcasecmp_eq name ''Content-MD5'' \<and> content_md5 d = None
      then Some (imap_quote_value E v) else content_md5 d)"
proof -
  obtain l where l: "message_content_parse_header E (t_strndup v) (parse_content_language E) None d =
       d\<lparr>content_language := l\<rparr>"
    using language_header by blast
  note defs = header_dispatch_def type_header disposition_header encoding_header l Let_def
    header_names
  show "content_type (header_dispatch E pr name v d) =
     (if strcasecmp_eq name ''Content-Type'' \<and> content_type d = None
      then Some (type_value E v) else content_type d)"
    by (simp add: defs)
  show "content_subtype (header_dispatch E pr name v d) =
     (if strcasecmp_eq name ''Content-Type'' \<and> content_type d = None
      then Some (subtype_value E v) else content_subtype d)"
    by (simp add: defs)
  show "content_type_params (header_dispatch E pr name v d) =
     (if strcasecmp_eq name ''Content-Type'' \<and> content_type d = None
      then Some (params_value E v) else content_type_params d)"
    by (simp add: defs)
  show "content_transfer_encoding (header_dispatch E pr name v d) =
     (if strcasecmp_eq name ''Content-Transfer-Encoding'' \<and> content_transfer_encoding d = None
      then Some (whole_value E v) else content_transfer_encoding d)"
    by (simp add: defs)
  show "content_id (header_dispatch E pr name v d) =
     (if strcasecmp_eq name ''Content-ID'' \<and> content_id d = None
      then Some (imap_quote_value E v) else content_id d)"
    by (simp add: defs)
  show "content_description (header_dispatch E pr name v d) =
     (if strcasecmp_eq name ''Content-Description'' \<and> content_description d = None
      then Some (imap_quote_value E v) else content_description d)"
    by (simp add: defs)
  show "content_disposition (header_dispatch E pr name v d) =
     (if strcasecmp_eq name ''Content-Disposition'' \<and> content_disposition_params d = None
      then Some (whole_value E v) else content_disposition d)"
    by (simp add: defs)
  show "content_disposition_params (header_dispatch E pr name v d) =
     (if strcasecmp_eq name ''Content-Disposition'' \<and> content_disposition_params d = None
      then Some (params_value E v) else content_disposition_params d)"
    by (simp add: defs)
  show "content_md5 (header_dispatch E pr name v d) =
     (if strcasecmp_eq name ''Content-MD5'' \<and> content_md5 d = None
      then Some (imap_quote_value E v) else content_md5 d)"
    by (simp add: defs)
qed

lemma header_name_relevant:
  assumes "strcasecmp_eq (t_strndup name) H" "8 < length H" "strncasecmp_eq H ''Content-'' 8"
  shows "relevant parent name"
proof -
  let ?n = "t_strndup name"
  have low: "map i_tolower ?n = map i_tolower H"
    using assms(1) by (simp add: strcasecmp_eq_def)
  have "length (map i_tolower ?n) = length (map i_tolower H)"
    by (simp only: low)
  then have len: "length ?n = length H" by simp
  have pre: "?n = take (length H) name"
    by (metis len t_strndup_def takeWhile_eq_take)
  have "length ?n \<le> length name"
    unfolding t_strndup_def by (rule length_takeWhile_le)
  with len assms(2) have l: "8 < length name" by simp
  have "take 8 ?n = take 8 (take (length H) name)"
    using pre by simp
  also have "\<dots> = take 8 name"
    using assms(2) by (simp add: min_def)
  finally have "map i_tolower (take 8 name) = take 8 (map i_tolower ?n)"
    by (simp add: take_map)
  also have "\<dots> = map i_tolower (take 8 H)"
    by (simp only: low take_map)
  finally have "strncasecmp_eq name ''Content-'' 8"
    using assms(3) by (simp add: strncasecmp_eq_def)
  with l show ?thesis by (simp add: relevant_def)
qed

lemma content_names_relevant:
  "strcasecmp_eq (t_strndup name) ''Content-Type'' \<Longrightarrow> relevant parent name"
  "strcasecmp_eq (t_strndup name) ''Content-Transfer-Encoding'' \<Longrightarrow> relevant parent name"
  "strcasecmp_eq (t_strndup name) ''Content-ID'' \<Longrightarrow> relevant parent name"
  "strcasecmp_eq (t_strndup name) ''Content-Description'' \<Longrightarrow> relevant parent name"
  "strcasecmp_eq (t_strndup name) ''Content-Disposition'' \<Longrightarrow> relevant parent name"
  "strcasecmp_eq (t_strndup name) ''Content-MD5'' \<Longrightarrow> relevant parent name"
proof -
  show "strcasecmp_eq (t_strndup name) ''Content-Type'' \<Longrightarrow> relevant parent name"
    by (erule header_name_relevant) (simp_all add: strncasecmp_eq_def)
  show "strcasecmp_eq (t_strndup name) ''Content-Transfer-Encoding'' \<Longrightarrow> relevant parent name"
    by (erule header_name_relevant) (simp_all add: strncasecmp_eq_def)
  show "strcasecmp_eq (t_strndup name) ''Content-ID'' \<Longrightarrow> relevant parent name"
    by (erule header_name_relevant) (simp_all add: strncasecmp_eq_def)
  show "strcasecmp_eq (t_strndup name) ''Content-Description'' \<Longrightarrow> relevant parent name"
    by (erule header_name_relevant) (simp_all add: strncasecmp_eq_def)
  show "strcasecmp_eq (t_strndup name) ''Content-Disposition'' \<Longrightarrow> relevant parent name"
    by (erule header_name_relevant) (simp_all add: strncasecmp_eq_def)
  show "strcasecmp_eq (t_strndup name) ''Content-MD5'' \<Longrightarrow> relevant parent name"
    by (erule header_name_relevant) (simp_all add: strncasecmp_eq_def)
qed

lemma step_fields:
  "content_type (header_step E parent h d) =
     (if strcasecmp_eq (t_strndup (fst h)) ''Content-Type'' \<and> content_type d = None
      then Some (type_value E (snd h)) else content_type d) \<and>
   content_subtype (header_step E parent h d) =
     (if strcasecmp_eq (t_strndup (fst h)) ''Content-Type'' \<and> content_type d = None
      then Some (subtype_value E (snd h)) else content_subtype d) \<and>
   content_type_params (header_step E parent h d) =
     (if strcasecmp_eq (t_strndup (fst h)) ''Content-Type'' \<and> content_type d = None
      then Some (params_value E (snd h)) else content_type_params d) \<and>
   content_transfer_encoding (header_step E parent h d) =
     (if strcasecmp_eq (t_strndup (fst h)) ''Content-Transfer-Encoding'' \<and>
         content_transfer_encoding d = None
      then Some (whole_value E (snd h)) else content_transfer_encoding d) \<and>
   content_id (header_step E parent h d) =
     (if strcasecmp_eq (t_strndup (fst h)) ''Content-ID'' \<and> content_id d = None
      then Some (imap_quote_value E (snd h)) else content_id d) \<and>
   content_description (header_step E parent h d) =
     (if strcasecmp_eq (t_strndup (fst h)) ''Content-Description'' \<and> content_description d = None
      then Some (imap_quote_value E (snd h)) else content_description d) \<and>
   content_disposition (header_step E parent h d) =
     (if strcasecmp_eq (t_strndup (fst h)) ''Content-Disposition'' \<and>
         content_disposition_params d = None
      then Some (whole_value E (snd h)) else content_disposition d) \<and>
   content_disposition_params (header_step E parent h d) =
     (if strcasecmp_eq (t_strndup (fst h)) ''Content-Disposition'' \<and>
         content_disposition_params d = None
      then Some (params_value E (snd h)) else content_disposition_params d) \<and>
   content_md5 (header_step E parent h d) =
     (if strcasecmp_eq (t_strndup (fst h)) ''Content-MD5'' \<and> content_md5 d = None
      then Some (imap_quote_value E (snd h)) else content_md5 d)"
proof (cases "relevant parent (fst h)")
  case True
  then show ?thesis
    by (simp only: header_step_def dispatch_fields if_True simp_thms)
next
  case False
  then have "\<not> strcasecmp_eq (t_strndup (fst h)) ''Content-Type''"
    "\<not> strcasecmp_eq (t_strndup (fst h)) ''Content-Transfer-Encoding''"
    "\<not> strcasecmp_eq (t_strndup (fst h)) ''Content-ID''"
    "\<not> strcasecmp_eq (t_strndup (fst h)) ''Content-Description''"
    "\<not> strcasecmp_eq (t_strndup (fst h)) ''Content-Disposition''"
    "\<not> strcasecmp_eq (t_strndup (fst h)) ''Content-MD5''"
    using content_names_relevant[of "fst h" parent] by blast+
  with False show ?thesis
    by (simp only: header_step_def if_False simp_thms)
qed

lemma find_snoc:
  "find P (xs @ [y]) = (case find P xs of Some x \<Rightarrow> Some x | None \<Rightarrow> if P y then Some y else None)"
  by (induction xs) auto

lemma first_occurrence_snoc:
  "first_occurrence H (hs @ [h]) =
     (case first_occurrence H hs of
        Some x \<Rightarrow> Some x
      | None \<Rightarrow> if strcasecmp_eq (t_strndup (fst h)) H then Some (snd h) else None)"
  by (simp add: first_occurrence_def find_snoc split: option.splits)

lemma fold_fields:
  fixes E :: "'e externals"
  defines "d0 \<equiv> empty_body_data :: 'e body_data"
  shows
  "content_type (fold (header_step E parent) hs d0) =
     map_option (type_value E) (first_occurrence ''Content-Type'' hs) \<and>
   content_subtype (fold (header_step E parent) hs d0) =
     map_option (subtype_value E) (first_occurrence ''Content-Type'' hs) \<and>
   content_type_params (fold (header_step E parent) hs d0) =
     map_option (params_value E) (first_occurrence ''Content-Type'' hs) \<and>
   content_transfer_encoding (fold (header_step E parent) hs d0) =
     map_option (whole_value E) (first_occurrence ''Content-Transfer-Encoding'' hs) \<and>
   content_id (fold (header_step E parent) hs d0) =
     map_option (imap_quote_value E) (first_occurrence ''Content-ID'' hs) \<and>
   content_description (fold (header_step E parent) hs d0) =
     map_option (imap_quote_value E) (first_occurrence ''Content-Description'' hs) \<and>
   content_disposition (fold (header_step E parent) hs d0) =
     map_option (whole_value E) (first_occurrence ''Content-Disposition'' hs) \<and>
   content_disposition_params (fold (header_step E parent) hs d0) =
     map_option (params_value E) (first_occurrence ''Content-Disposition'' hs) \<and>
   content_md5 (fold (header_step E parent) hs d0) =
     map_option (imap_quote_value E) (first_occurrence ''Content-MD5'' hs)"
proof (induction hs rule: rev_induct)
  case Nil
  show ?case by (simp add: d0_def empty_body_data_def first_occurrence_def)
next
  case (snoc h hs)
  let ?d = "fold (header_step E parent) hs d0"
  have f: "fold (header_step E parent) (hs @ [h]) d0 = header_step E parent h ?d"
    by simp
  note s = step_fields[of E parent h ?d]
  note o = first_occurrence_snoc
  from snoc have
    i1: "content_type ?d = map_option (type_value E) (first_occurrence ''Content-Type'' hs)" and
    i2: "content_subtype ?d = map_option (subtype_value E) (first_occurrence ''Content-Type'' hs)" and
    i3: "content_type_params ?d = map_option (params_value E) (first_occurrence ''Content-Type'' hs)" and
    i4: "content_transfer_encoding ?d =
           map_option (whole_value E) (first_occurrence ''Content-Transfer-Encoding'' hs)" and
    i5: "content_id ?d = map_option (imap_quote_value E) (first_occurrence ''Content-ID'' hs)" and
    i6: "content_description ?d =
           map_option (imap_quote_value E) (first_occurrence ''Content-Description'' hs)" and
    i7: "content_disposition ?d =
           map_option (whole_value E) (first_occurrence ''Content-Disposition'' hs)" and
    i8: "content_disposition_params ?d =
           map_option (params_value E) (first_occurrence ''Content-Disposition'' hs)" and
    i9: "content_md5 ?d = map_option (imap_quote_value E) (first_occurrence ''Content-MD5'' hs)"
    by blast+
  have "content_type (header_step E parent h ?d) =
          map_option (type_value E) (first_occurrence ''Content-Type'' (hs @ [h]))"
    using s i1 by (cases "first_occurrence ''Content-Type'' hs") (simp_all add: o)
  moreover have "content_subtype (header_step E parent h ?d) =
          map_option (subtype_value E) (first_occurrence ''Content-Type'' (hs @ [h]))"
    using s i1 i2 by (cases "first_occurrence ''Content-Type'' hs") (simp_all add: o)
  moreover have "content_type_params (header_step E parent h ?d) =
          map_option (params_value E) (first_occurrence ''Content-Type'' (hs @ [h]))"
    using s i1 i3 by (cases "first_occurrence ''Content-Type'' hs") (simp_all add: o)
  moreover have "content_transfer_encoding (header_step E parent h ?d) =
          map_option (whole_value E) (first_occurrence ''Content-Transfer-Encoding'' (hs @ [h]))"
    using s i4 by (cases "first_occurrence ''Content-Transfer-Encoding'' hs") (simp_all add: o)
  moreover have "content_id (header_step E parent h ?d) =
          map_option (imap_quote_value E) (first_occurrence ''Content-ID'' (hs @ [h]))"
    using s i5 by (cases "first_occurrence ''Content-ID'' hs") (simp_all add: o)
  moreover have "content_description (header_step E parent h ?d) =
          map_option (imap_quote_value E) (first_occurrence ''Content-Description'' (hs @ [h]))"
    using s i6 by (cases "first_occurrence ''Content-Description'' hs") (simp_all add: o)
  moreover have "content_disposition (header_step E parent h ?d) =
          map_option (whole_value E) (first_occurrence ''Content-Disposition'' (hs @ [h]))"
    using s i7 i8 by (cases "first_occurrence ''Content-Disposition'' hs") (simp_all add: o)
  moreover have "content_disposition_params (header_step E parent h ?d) =
          map_option (params_value E) (first_occurrence ''Content-Disposition'' (hs @ [h]))"
    using s i8 by (cases "first_occurrence ''Content-Disposition'' hs") (simp_all add: o)
  moreover have "content_md5 (header_step E parent h ?d) =
          map_option (imap_quote_value E) (first_occurrence ''Content-MD5'' (hs @ [h]))"
    using s i9 by (cases "first_occurrence ''Content-MD5'' hs") (simp_all add: o)
  ultimately show ?case
    unfolding f by blast
qed

section \<open>Facts about the argument parser and the rendered text\<close>

fun settle :: "parser_state \<Rightarrow> parser_state option" where
  "settle (Idle, cur, stack) = Some (Idle, cur, stack)"
| "settle (In_atom acc, cur, stack) = Some (Idle, atom_arg acc # cur, stack)"
| "settle _ = None"

definition emits :: "string \<Rightarrow> imap_arg list \<Rightarrow> bool" where
  "emits X xs =
     (\<forall>cur stack. \<exists>st. parser_run X (Idle, cur, stack) = Some st \<and>
                       settle st = Some (Idle, rev xs @ cur, stack))"

definition delimiter :: "char \<Rightarrow> bool" where
  "delimiter c = (c = CHR '' '' \<or> c = CHR ''('' \<or> c = CHR '')'')"

definition delimited :: "string \<Rightarrow> bool" where
  "delimited Y = (case Y of [] \<Rightarrow> False | c # _ \<Rightarrow> delimiter c)"

lemma parser_run_append:
  "parser_run (X @ Y) st =
     (case parser_run X st of None \<Rightarrow> None | Some st' \<Rightarrow> parser_run Y st')"
  by (induction X arbitrary: st) (auto split: option.splits)

lemma step_settle:
  "delimiter d \<Longrightarrow> settle st = Some st' \<Longrightarrow> parser_step st d = parser_step st' d"
  by (cases st rule: settle.cases) (auto simp: delimiter_def)

lemma run_settle:
  "delimited Y \<Longrightarrow> settle st = Some st' \<Longrightarrow> parser_run Y st = parser_run Y st'"
  by (cases Y) (auto simp: delimited_def step_settle)

lemma emits_Nil: "emits [] []"
  by (simp add: emits_def)

lemma emits_append:
  assumes "emits X xs" "emits Y ys" "delimited Y"
  shows "emits (X @ Y) (xs @ ys)"
  unfolding emits_def
proof (intro allI)
  fix cur stack
  from assms(1) obtain st where st: "parser_run X (Idle, cur, stack) = Some st"
    "settle st = Some (Idle, rev xs @ cur, stack)"
    unfolding emits_def by blast
  from assms(2) obtain st' where st': "parser_run Y (Idle, rev xs @ cur, stack) = Some st'"
    "settle st' = Some (Idle, rev ys @ rev xs @ cur, stack)"
    unfolding emits_def by blast
  have "parser_run (X @ Y) (Idle, cur, stack) = Some st'"
    using st st' run_settle[OF assms(3) st(2)] by (simp add: parser_run_append)
  then show "\<exists>st. parser_run (X @ Y) (Idle, cur, stack) = Some st \<and>
            settle st = Some (Idle, rev (xs @ ys) @ cur, stack)"
    using st'(2) by simp
qed

lemma emits_space: "emits X xs \<Longrightarrow> emits (CHR '' '' # X) xs"
  unfolding emits_def by (simp add: idle_step_def)

lemma emits_parens:
  assumes "emits X xs"
  shows "emits (''('' @ X @ '')'') [IMAP_ARG_LIST xs]"
  unfolding emits_def
proof (intro allI)
  fix cur stack
  from assms obtain st where st: "parser_run X (Idle, [], cur # stack) = Some st"
    "settle st = Some (Idle, rev xs @ [], cur # stack)"
    unfolding emits_def by blast
  have "parser_step st (CHR '')'') = parser_step (Idle, rev xs, cur # stack) (CHR '')'')"
    using step_settle[of "CHR '')''" st] st(2) by (simp add: delimiter_def)
  then have "parser_run (''('' @ X @ '')'') (Idle, cur, stack) =
             Some (Idle, IMAP_ARG_LIST xs # cur, stack)"
    using st(1) by (simp add: parser_run_append idle_step_def)
  then show "\<exists>st. parser_run (''('' @ X @ '')'') (Idle, cur, stack) = Some st \<and>
            settle st = Some (Idle, rev [IMAP_ARG_LIST xs] @ cur, stack)"
    by simp
qed

lemma emits_read: "emits X xs \<Longrightarrow> imap_parser_read_args X = Some xs"
proof -
  assume "emits X xs"
  then obtain st where st: "parser_run X (Idle, [], []) = Some st"
    "settle st = Some (Idle, rev xs @ [], [])"
    unfolding emits_def by blast
  then have "parser_finish st = Some xs"
    by (cases st rule: settle.cases) auto
  with st show ?thesis by (simp add: imap_parser_read_args_def)
qed

definition lift :: "imap_arg list \<Rightarrow> imap_arg list list \<Rightarrow> parser_state \<Rightarrow> parser_state" where
  "lift c0 s0 st =
     (case st of (m, cur, stack) \<Rightarrow>
        if stack = [] then (m, cur @ c0, s0)
        else (m, cur, butlast stack @ [last stack @ c0] @ s0))"

lemma idle_step_lift:
  "idle_step cur stack d = Some st' \<Longrightarrow>
   idle_step (fst (snd (lift c0 s0 (m, cur, stack)))) (snd (snd (lift c0 s0 (m, cur, stack)))) d =
     Some (lift c0 s0 st')"
  by (cases stack; cases "tl stack")
     (auto simp: idle_step_def lift_def split: if_splits list.splits)

lemma step_lift:
  assumes a: "parser_step st d = Some st'"
  shows "parser_step (lift c0 s0 st) d = Some (lift c0 s0 st')"
proof -
  obtain m cur stack where st: "st = (m, cur, stack)" by (cases st)
  show ?thesis
  proof (cases m)
    case Idle
    with a st idle_step_lift[of cur stack d st' c0 s0 Idle] show ?thesis
      by (auto simp: lift_def split: if_splits)
  next
    case (In_atom acc)
    show ?thesis
    proof (cases "d = CHR '' '' \<or> d = CHR ''('' \<or> d = CHR '')''")
      case True
      with a st In_atom idle_step_lift[of "atom_arg acc # cur" stack d st' c0 s0 Idle] show ?thesis
        by (auto simp: lift_def split: if_splits)
    next
      case False
      with a st In_atom show ?thesis by (auto simp: lift_def split: if_splits)
    qed
  next
    case (In_string acc)
    with a st show ?thesis by (auto simp: lift_def split: if_splits)
  next
    case (In_escape acc)
    with a st show ?thesis by (auto simp: lift_def split: if_splits)
  qed
qed

lemma run_lift:
  "parser_run X st = Some st' \<Longrightarrow> parser_run X (lift c0 s0 st) = Some (lift c0 s0 st')"
proof (induction X arbitrary: st)
  case Nil
  then show ?case by simp
next
  case (Cons d X)
  then obtain st1 where s: "parser_step st d = Some st1" "parser_run X st1 = Some st'"
    by (auto split: option.splits)
  from step_lift[OF s(1)] Cons.IH[OF s(2)] show ?case by simp
qed

lemma read_emits:
  assumes "imap_parser_read_args X = Some xs"
  shows "emits X xs"
  unfolding emits_def
proof (intro allI)
  fix cur stack
  from assms obtain st where st: "parser_run X (Idle, [], []) = Some st" "parser_finish st = Some xs"
    by (auto simp: imap_parser_read_args_def split: option.splits)
  have "lift cur stack (Idle, [], []) = (Idle, cur, stack)"
    by (simp add: lift_def)
  with run_lift[OF st(1), of cur stack]
  have r: "parser_run X (Idle, cur, stack) = Some (lift cur stack st)" by simp
  have "settle (lift cur stack st) = Some (Idle, rev xs @ cur, stack)"
    using st(2) by (cases st rule: parser_finish.cases) (auto simp: lift_def)
  with r show "\<exists>st. parser_run X (Idle, cur, stack) = Some st \<and>
            settle st = Some (Idle, rev xs @ cur, stack)"
    by blast
qed

definition atom_char :: "char \<Rightarrow> bool" where
  "atom_char c = (\<not> delimiter c \<and> c \<noteq> CHR 0x22)"

lemma run_atom:
  "\<forall>c \<in> set a. atom_char c \<Longrightarrow>
   parser_run a (In_atom acc, cur, stack) = Some (In_atom (rev a @ acc), cur, stack)"
  by (induction a arbitrary: acc) (auto simp: atom_char_def delimiter_def)

lemma emits_atom:
  assumes "\<forall>c \<in> set a. atom_char c" "a \<noteq> []" "a \<noteq> ''NIL''"
  shows "emits a [IMAP_ARG_ATOM a]"
proof -
  obtain x a' where a: "a = x # a'" using assms(2) by (cases a) auto
  have "parser_run a (Idle, cur, stack) = Some (In_atom (rev a), cur, stack)" for cur stack
    using assms(1) run_atom[of a' "[x]" cur stack]
    by (simp add: a idle_step_def atom_char_def delimiter_def)
  then show ?thesis
    using assms(3) by (simp add: emits_def atom_arg_def)
qed

lemma digit_char_digit: "d < 10 \<Longrightarrow> digit_char d \<in> set ''0123456789''"
  unfolding digit_char_def by (rule nth_mem) simp

lemma dec_digits: "set (dec n) \<subseteq> set ''0123456789'' \<and> dec n \<noteq> []"
proof (induction n rule: dec.induct)
  case (1 n)
  show ?case
  proof (cases "n < 10")
    case True
    then show ?thesis using digit_char_digit[of n] by (subst dec.simps, subst dec.simps) simp
  next
    case False
    then have "n mod 10 < 10" by simp
    with False 1 digit_char_digit[of "n mod 10"] show ?thesis
      by (subst dec.simps, subst (2) dec.simps) auto
  qed
qed

lemma emits_dec: "emits (dec n) [IMAP_ARG_ATOM (dec n)]"
proof (rule emits_atom)
  show "\<forall>c \<in> set (dec n). atom_char c"
    using dec_digits[of n] by (auto simp: atom_char_def delimiter_def)
  show "dec n \<noteq> []" using dec_digits by blast
  show "dec n \<noteq> ''NIL''" using dec_digits[of n] by auto
qed

lemma read_NIL: "imap_parser_read_args ''NIL'' = Some [IMAP_ARG_NIL]"
  by (simp add: imap_parser_read_args_def idle_step_def atom_arg_def)

lemma read_quoted_defaults:
  \<open>imap_parser_read_args ''"text"'' = Some [IMAP_ARG_STRING ''text'']\<close>
  \<open>imap_parser_read_args ''"plain"'' = Some [IMAP_ARG_STRING ''plain'']\<close>
  \<open>imap_parser_read_args ''"8bit"'' = Some [IMAP_ARG_STRING ''8bit'']\<close>
  by (simp_all add: imap_parser_read_args_def idle_step_def)

lemma read_EMPTY_BODYSTRUCTURE:
  "imap_parser_read_args EMPTY_BODYSTRUCTURE =
     Some [IMAP_ARG_LIST [IMAP_ARG_STRING ''text'', IMAP_ARG_STRING ''plain'',
        IMAP_ARG_LIST [IMAP_ARG_STRING ''charset'', IMAP_ARG_STRING ''us-ascii''],
        IMAP_ARG_NIL, IMAP_ARG_NIL, IMAP_ARG_STRING ''7bit'', IMAP_ARG_ATOM ''0'', IMAP_ARG_ATOM ''0'']]"
  by (simp add: EMPTY_BODYSTRUCTURE_def imap_parser_read_args_def idle_step_def atom_arg_def)

definition valid :: "string \<Rightarrow> bool" where
  "valid X = (\<exists>xs. emits X xs)"

fun fields_valid :: "field list \<Rightarrow> bool" where
  "fields_valid [] = True"
| "fields_valid (Txt t # fs) = (valid t \<and> fields_valid fs)"
| "fields_valid (Grp g # fs) = (fields_valid g \<and> fields_valid fs)"

lemma valid_wire: "wire_ok X \<Longrightarrow> valid X"
  unfolding wire_ok_def valid_def using read_emits by blast

lemma valid_Nil: "valid []"
  unfolding valid_def using emits_Nil by blast

lemma valid_append: "valid X \<Longrightarrow> valid Y \<Longrightarrow> delimited Y \<Longrightarrow> valid (X @ Y)"
  unfolding valid_def using emits_append by blast

lemma valid_space: "valid X \<Longrightarrow> valid (CHR '' '' # X)"
  unfolding valid_def using emits_space by blast

lemma valid_parens: "valid X \<Longrightarrow> valid (CHR ''('' # X @ '')'')"
  unfolding valid_def using emits_parens by fastforce

lemma valid_dec: "valid (dec n)"
  unfolding valid_def using emits_dec by blast

lemma valid_consts:
  \<open>valid ''NIL''\<close> \<open>valid ''"text"''\<close> \<open>valid ''"plain"''\<close> \<open>valid ''"8bit"''\<close>
  "valid EMPTY_BODYSTRUCTURE"
  by (rule valid_wire, simp add: wire_ok_def read_NIL read_quoted_defaults
        read_EMPTY_BODYSTRUCTURE)+

lemma delimited_simps [simp]:
  "delimited (CHR '' '' # X)" "delimited (CHR ''('' # X)" "\<not> delimited []"
  by (simp_all add: delimited_def delimiter_def)

lemma valid_spaced: "valid X \<Longrightarrow> valid Y \<Longrightarrow> valid (X @ CHR '' '' # Y)"
  by (simp add: valid_append valid_space)

lemma flat_valid: "fields_valid fs \<Longrightarrow> valid (flat fs)"
proof (induction fs rule: flat.induct)
  case 1
  then show ?case by (simp add: valid_Nil)
next
  case (2 s fs)
  then show ?case
    by (cases fs) (auto simp: flat.simps(2) intro: valid_spaced)
next
  case (3 g fs)
  show ?case
  proof (cases fs)
    case Nil
    with 3 show ?thesis by (simp add: valid_parens)
  next
    case (Cons f fs')
    show ?thesis
    proof (cases f)
      case (Txt t)
      with 3 Cons have "valid (CHR ''('' # flat g @ '')'')" "valid (flat (Txt t # fs'))"
        by (simp_all add: valid_parens)
      then have "valid ((CHR ''('' # flat g @ '')'') @ CHR '' '' # flat (Txt t # fs'))"
        by (rule valid_spaced)
      with Cons Txt show ?thesis by simp
    next
      case (Grp h)
      with 3 Cons have a: "valid (CHR ''('' # flat g @ '')'')" and b: "valid (flat (Grp h # fs'))"
        by (simp_all add: valid_parens)
      have "delimited (flat (Grp h # fs'))"
        by (cases fs') (simp_all add: flat.simps(3))
      with a b have "valid ((CHR ''('' # flat g @ '')'') @ flat (Grp h # fs'))"
        by (rule valid_append)
      with Cons Grp show ?thesis by simp
    qed
  qed
qed

lemma valid_NVL: "field_ok f \<Longrightarrow> valid dflt \<Longrightarrow> valid (NVL f dflt)"
  by (cases f) (simp_all add: NVL_def field_ok_def valid_wire)

lemma valid_params_or_nil: "field_ok f \<Longrightarrow> valid (params_or_nil f)"
  by (cases f) (simp_all add: params_or_nil_def field_ok_def valid_wire valid_consts valid_parens)

lemma fields_valid_append: "fields_valid (xs @ ys) = (fields_valid xs \<and> fields_valid ys)"
  by (induction xs rule: fields_valid.induct) auto

lemma fields_valid_leaf: "data_ok d \<Longrightarrow> fields_valid (leaf_fields d sz)"
  by (simp add: leaf_fields_def data_ok_def valid_NVL valid_params_or_nil valid_consts valid_dec)

lemma fields_valid_leaf_extension':
  "field_ok (content_md5 d) \<Longrightarrow> field_ok (content_disposition d) \<Longrightarrow>
   field_ok (content_disposition_params d) \<Longrightarrow> field_ok (content_language d) \<Longrightarrow>
   fields_valid (leaf_extension d)"
  by (auto simp: leaf_extension_def valid_NVL valid_params_or_nil valid_consts
        field_ok_def valid_wire valid_parens split: option.splits)




definition item :: "string \<Rightarrow> imap_arg list \<Rightarrow> bool" where
  "item X xs = (emits X xs \<and> imap_write_items xs = X)"

lemma read_canonical_item: "read_canonical X = Some xs \<Longrightarrow> item X xs"
  by (auto simp: read_canonical_def item_def read_emits split: option.splits if_splits)

lemma string_field_item:
  "string_field X = Some s \<Longrightarrow> item X [IMAP_ARG_STRING s]"
  by (auto simp: string_field_def split: option.splits list.splits imap_arg.splits
      intro: read_canonical_item)

lemma scalar_text_item: "scalar_text X \<Longrightarrow> \<exists>a. scalar a \<and> item X [a]"
  by (auto simp: scalar_text_def split: option.splits list.splits intro: read_canonical_item)

lemma params_item:
  "(case f of None \<Rightarrow> True | Some ps \<Rightarrow> params_text ps) \<Longrightarrow>
   \<exists>p. params_field p \<and> item (params_or_nil f) [p]"
proof (cases f)
  case None
  have "item ''NIL'' [IMAP_ARG_NIL]"
    by (simp add: item_def read_emits read_NIL)
  then show ?thesis using None
    by (auto simp: params_or_nil_def params_field_def intro!: exI[of _ IMAP_ARG_NIL])
next
  case (Some P)
  assume "case f of None \<Rightarrow> True | Some ps \<Rightarrow> params_text ps"
  with Some obtain ps where ps: "params_ok ps" "item P ps"
    by (auto simp: params_text_def split: option.splits intro: read_canonical_item)
  then have "item (''('' @ P @ '')'') [IMAP_ARG_LIST ps]"
    using emits_parens[of P ps] by (simp add: item_def)
  with ps(1) Some show ?thesis
    by (auto simp: params_or_nil_def params_field_def intro!: exI[of _ "IMAP_ARG_LIST ps"])
qed

lemma item_dec: "item (dec n) [IMAP_ARG_ATOM (dec n)]"
  by (simp add: item_def emits_dec)

lemma item_join:
  "item X [a] \<Longrightarrow> item Y (b # ys) \<Longrightarrow> item (X @ CHR '' '' # Y) (a # b # ys)"
  using emits_append[of X "[a]" "CHR '' '' # Y" "b # ys"]
  by (auto simp: item_def emits_space)

lemma valid_body_extended:
  assumes "field_ok (content_md5 d)" "field_ok (content_disposition d)"
    "field_ok (content_disposition_params d)" "field_ok (content_language d)"
  shows "\<exists>xs. emits (body_extended d) xs" "delimited (body_extended d)"
proof -
  have "fields_valid (Txt [] # leaf_extension d)"
    using assms by (simp add: fields_valid_leaf_extension' valid_Nil)
  then have "valid (flat (Txt [] # leaf_extension d))" by (rule flat_valid)
  then show "\<exists>xs. emits (body_extended d) xs"
    by (simp add: flat_Txt_leaf_extension valid_def)
  show "delimited (body_extended d)"
    by (simp add: body_extended_def)
qed

lemma text_leaf_items:
  assumes "text_leaf_ok d"
  shows "\<exists>t st p f1 f2 f3.
           strcasecmp_eq t ''text'' \<and> params_field p \<and> scalar f1 \<and> scalar f2 \<and> scalar f3 \<and>
           item (body_fields d sz @ '' '' @ dec n)
             [IMAP_ARG_STRING t, IMAP_ARG_STRING st, p, f1, f2, f3,
              IMAP_ARG_ATOM (dec (virtual_size sz)), IMAP_ARG_ATOM (dec n)]"
proof -
  from assms obtain t where t: \<open>string_field (NVL (content_type d) ''"text"'') = Some t\<close>
    "strcasecmp_eq t ''text''"
    by (auto simp: text_leaf_ok_def split: option.splits)
  from assms obtain st where st: \<open>string_field (NVL (content_subtype d) ''"plain"'') = Some st\<close>
    by (auto simp: text_leaf_ok_def)
  from assms obtain p where p: "params_field p" "item (params_or_nil (content_type_params d)) [p]"
    using params_item[of "content_type_params d"] by (auto simp: text_leaf_ok_def)
  from assms obtain f1 where f1: "scalar f1" "item (NVL (content_id d) ''NIL'') [f1]"
    using scalar_text_item by (auto simp: text_leaf_ok_def)
  from assms obtain f2 where f2: "scalar f2" "item (NVL (content_description d) ''NIL'') [f2]"
    using scalar_text_item by (auto simp: text_leaf_ok_def)
  from assms obtain f3 where f3: "scalar f3"
    \<open>item (NVL (content_transfer_encoding d) ''"8bit"'') [f3]\<close>
    using scalar_text_item by (auto simp: text_leaf_ok_def)
  note j = item_join
  have "item (body_fields d sz @ '' '' @ dec n)
             [IMAP_ARG_STRING t, IMAP_ARG_STRING st, p, f1, f2, f3,
              IMAP_ARG_ATOM (dec (virtual_size sz)), IMAP_ARG_ATOM (dec n)]"
    using j[OF string_field_item[OF t(1)] j[OF string_field_item[OF st] j[OF p(2) j[OF f1(2)
          j[OF f2(2) j[OF f3(2) j[OF item_dec item_dec]]]]]]]
    by (simp add: body_fields_def)
  with t(2) p(1) f1(1) f2(1) f3(1) show ?thesis by blast
qed

lemma text_leaf_roundtrip:
  assumes "MESSAGE_PART_FLAG_MULTIPART \<notin> fl" "MESSAGE_PART_FLAG_TEXT \<in> fl"
    and ok: "text_leaf_ok (case ctx of None \<Rightarrow> empty_body_data | Some d \<Rightarrow> d)"
  shows "\<exists>r u. part_get_bodystructure ew (MessagePart fl sz ctx ch) True = Inr r \<and>
               part_get_bodystructure ew (MessagePart fl sz ctx ch) False = Inr u \<and>
               imap_body_parse_from_bodystructure r = Some u \<and>
               u = body_fields (case ctx of None \<Rightarrow> empty_body_data | Some d \<Rightarrow> d) sz @ '' '' @
                   dec (lines sz) \<and>
               r = u @ body_extended (case ctx of None \<Rightarrow> empty_body_data | Some d \<Rightarrow> d)"
proof -
  let ?d = "case ctx of None \<Rightarrow> empty_body_data | Some d \<Rightarrow> d"
  let ?u = "body_fields ?d sz @ '' '' @ dec (lines sz)"
  let ?r = "?u @ body_extended ?d"
  have r: "part_get_bodystructure ew (MessagePart fl sz ctx ch) True = Inr ?r"
    and u: "part_get_bodystructure ew (MessagePart fl sz ctx ch) False = Inr ?u"
    using assms(1,2) by (simp_all add: part_get_bodystructure_def)
  from text_leaf_items[OF ok, of sz "lines sz"] obtain t st p f1 f2 f3 where
    k: "strcasecmp_eq t ''text''" "params_field p" "scalar f1" "scalar f2" "scalar f3"
    and it: "item ?u [IMAP_ARG_STRING t, IMAP_ARG_STRING st, p, f1, f2, f3,
              IMAP_ARG_ATOM (dec (virtual_size sz)), IMAP_ARG_ATOM (dec (lines sz))]"
    by blast
  from ok obtain xs where xs: "emits (body_extended ?d) xs" and dl: "delimited (body_extended ?d)"
    using valid_body_extended[of ?d] by (auto simp: text_leaf_ok_def)
  let ?args = "[IMAP_ARG_STRING t, IMAP_ARG_STRING st, p, f1, f2, f3,
              IMAP_ARG_ATOM (dec (virtual_size sz)), IMAP_ARG_ATOM (dec (lines sz))]"
  have "emits ?r (?args @ xs)"
    using it xs dl by (intro emits_append) (simp_all add: item_def)
  then have read: "imap_parser_read_args ?r = Some (?args @ xs)"
    by (rule emits_read)
  have "imap_parse_bodystructure_args (?args @ xs) = Some (imap_write_items ?args)"
    using k by (simp add: reduce_leaf line_count_def)
  also have "imap_write_items ?args = ?u"
    using it by (simp only: item_def)
  finally have "imap_body_parse_from_bodystructure ?r = Some ?u"
    using read by (simp add: imap_body_parse_from_bodystructure_def)
  with r u show ?thesis by blast
qed

















section \<open>The claims about the serializer\<close>

text \<open>
  C3.  For every tree, the fields of the unextended rendering are, field by field and
  at every node, a prefix of the fields of the extended rendering, which has more
  fields; both renderings are the flattened fields when the tree is well formed, and
  both fail otherwise.
\<close>

theorem extended_appends_fields:
  "(part_ok p \<longrightarrow>
      part_get_bodystructure ew p False = Inr (flat (part_fields ew False p)) \<and>
      part_get_bodystructure ew p True = Inr (flat (part_fields ew True p))) \<and>
   fieldwise_prefix (part_fields ew False p) (part_fields ew True p) \<and>
   length (part_fields ew False p) < length (part_fields ew True p) \<and>
   (\<not> part_ok p \<longrightarrow>
      isl (part_get_bodystructure ew p False) \<and> isl (part_get_bodystructure ew p True))"
proof -
  have ok: "part_get_bodystructure ew p ext = Inr (flat (part_fields ew ext p))"
    if "part_ok p" for ext
  proof -
    from that obtain s where s: "part_get_bodystructure ew p ext = Inr s"
      using get_ok by blast
    then have "s = flat (part_fields ew ext p)"
      using render_fields(1)[of ew False "[p]" ext s]
      by (simp add: part_get_bodystructure_def wrap_def del: part_write_bodystructure.simps)
    with s show ?thesis by simp
  qed
  have bad: "isl (part_get_bodystructure ew p ext)" if "\<not> part_ok p" for ext
    using that get_ok[of ew p ext] by (cases "part_get_bodystructure ew p ext") auto
  show ?thesis
    using ok bad part_fields_prefix part_fields_longer by blast
qed

theorem extended_appends_fields_witness:
  \<open>part_ok (MessagePart {MESSAGE_PART_FLAG_TEXT} \<lparr>virtual_size = 12, lines = 1\<rparr> None []) \<and>
   part_get_bodystructure id
     (MessagePart {MESSAGE_PART_FLAG_TEXT} \<lparr>virtual_size = 12, lines = 1\<rparr> None []) False =
     Inr ''"text" "plain" NIL NIL NIL "8bit" 12 1'' \<and>
   part_get_bodystructure id
     (MessagePart {MESSAGE_PART_FLAG_TEXT} \<lparr>virtual_size = 12, lines = 1\<rparr> None []) True =
     Inr ''"text" "plain" NIL NIL NIL "8bit" 12 1 NIL NIL NIL''\<close>
  using extended_appends_fields
    [of "MessagePart {MESSAGE_PART_FLAG_TEXT} \<lparr>virtual_size = 12, lines = 1\<rparr> None []" id]
  by (simp add: leaf_fields_def leaf_extension_def empty_body_data_def NVL_def params_or_nil_def
        dec.simps digit_char_def)



section \<open>The claims about the reducer\<close>

text \<open>
  C2, as stated, fails: the reducer also fails on a tree that the grammar of the spec
  accepts.  The spec has the four items after the parameter field copied whatever
  their kind; with a nested list in the place of the content id no level has fewer
  than two items, every position that expects a kind holds it and no nested list or
  atom is missing, and yet the reduction fails.
\<close>

theorem reduce_fails_beyond_grammar_counterexample:
  "spec_structure_ok
     [IMAP_ARG_STRING ''image'', IMAP_ARG_STRING ''png'', IMAP_ARG_NIL, IMAP_ARG_LIST [],
      IMAP_ARG_NIL, IMAP_ARG_STRING ''base64'', IMAP_ARG_ATOM ''10''] \<and>
   imap_parse_bodystructure_args
     [IMAP_ARG_STRING ''image'', IMAP_ARG_STRING ''png'', IMAP_ARG_NIL, IMAP_ARG_LIST [],
      IMAP_ARG_NIL, IMAP_ARG_STRING ''base64'', IMAP_ARG_ATOM ''10''] = None"
  by (simp add: reduce_leaf params_field_def strcasecmp_eq_def i_tolower_def)

text \<open>
  C2, amended.  The reducer fails exactly on the argument trees that \<open>structure_ok\<close>
  rejects: a level with fewer than two items, an item of the wrong kind at an expected
  position, where each of the four items after the parameter field is expected to be
  NIL, an atom or a quoted string, or a missing nested list or atom.  Every tree that
  the grammar of the spec rejects is among them.  A failure is the result \<open>None\<close> of
  the whole call, with no text.  In particular a level with fewer than two items (a
  type without a subtype) fails.
\<close>

theorem reduce_fails_iff_malformed:
  "(imap_parse_bodystructure_args args = None) = (\<not> structure_ok args) \<and>
   (\<not> spec_structure_ok args \<longrightarrow> imap_parse_bodystructure_args args = None) \<and>
   (length args < 2 \<longrightarrow> imap_parse_bodystructure_args args = None) \<and>
   (imap_body_parse_from_bodystructure input = None) =
     (case imap_parser_read_args input of None \<Rightarrow> True | Some a \<Rightarrow> \<not> structure_ok a)"
proof -
  have a: "(imap_parse_bodystructure_args args = None) = (\<not> structure_ok args)"
    by (simp add: reduce_ok_iff(1))
  have b: "\<not> spec_structure_ok args \<longrightarrow> imap_parse_bodystructure_args args = None"
    using structure_ok_spec(1)[of args] a by blast
  have "length args < 2 \<Longrightarrow> \<not> structure_ok args"
    by (cases args rule: structure_ok.cases) auto
  then have c: "length args < 2 \<longrightarrow> imap_parse_bodystructure_args args = None"
    using a by blast
  have d: "(imap_body_parse_from_bodystructure input = None) =
     (case imap_parser_read_args input of None \<Rightarrow> True | Some a \<Rightarrow> \<not> structure_ok a)"
    by (auto simp: reduce_ok_iff(1) imap_body_parse_from_bodystructure_def split: option.splits)
  show ?thesis
    by (intro conjI a b c d)
qed

theorem reduce_fails_iff_malformed_witness:
  "length [IMAP_ARG_STRING ''text''] < 2 \<and>
   imap_parse_bodystructure_args [IMAP_ARG_STRING ''text''] = None \<and>
   \<not> spec_structure_ok
       [IMAP_ARG_STRING ''text'', IMAP_ARG_STRING ''plain'', IMAP_ARG_NIL, IMAP_ARG_NIL,
        IMAP_ARG_NIL, IMAP_ARG_STRING ''7bit'', IMAP_ARG_ATOM ''12'', IMAP_ARG_NIL] \<and>
   imap_parse_bodystructure_args
       [IMAP_ARG_STRING ''text'', IMAP_ARG_STRING ''plain'', IMAP_ARG_NIL, IMAP_ARG_NIL,
        IMAP_ARG_NIL, IMAP_ARG_STRING ''7bit'', IMAP_ARG_ATOM ''12'', IMAP_ARG_NIL] = None"
  using reduce_fails_iff_malformed [of "[IMAP_ARG_STRING ''text'']" "[]"]
    reduce_fails_iff_malformed
      [of "[IMAP_ARG_STRING ''text'', IMAP_ARG_STRING ''plain'', IMAP_ARG_NIL, IMAP_ARG_NIL,
            IMAP_ARG_NIL, IMAP_ARG_STRING ''7bit'', IMAP_ARG_ATOM ''12'', IMAP_ARG_NIL]" "[]"]
  by (simp add: params_field_def strcasecmp_eq_def i_tolower_def)

text \<open>
  C8, as stated, fails: the four items after the parameter field are not copied
  whatever their kind.  A nested list in the place of the content id makes the
  reduction fail.
\<close>

theorem leaf_fields_any_kind_counterexample:
  "imap_parse_bodystructure_args
     [IMAP_ARG_STRING ''image'', IMAP_ARG_STRING ''png'', IMAP_ARG_NIL, IMAP_ARG_LIST [],
      IMAP_ARG_NIL, IMAP_ARG_STRING ''base64'', IMAP_ARG_ATOM ''10''] = None"
  by (simp add: reduce_leaf)

text \<open>
  C8, amended.  In the leaf branch, after the type, the subtype and the parameter
  field, the next four items are copied as the generic writer \<open>imap_write_items\<close>
  writes them when each is NIL, an atom or a quoted string, and the reduction fails
  when one of them is a nested list.  The size and the line count are copied whatever
  their text is: a text part's result ends with the atom that follows the size, and
  no condition is put on either atom.
\<close>

theorem leaf_fields_copied:
  "imap_parse_bodystructure_args
     (IMAP_ARG_STRING t # IMAP_ARG_STRING st # p # f1 # f2 # f3 # f4 # rest) =
     (if \<not> (params_field p \<and> scalar f1 \<and> scalar f2 \<and> scalar f3 \<and> scalar f4) then None
      else if strcasecmp_eq t ''text'' then
        (case line_count rest of
           Some n \<Rightarrow>
             Some (imap_write_items [IMAP_ARG_STRING t, IMAP_ARG_STRING st, p, f1, f2, f3, f4,
                                     IMAP_ARG_ATOM n])
         | None \<Rightarrow> None)
      else if strcasecmp_eq t ''message'' \<and> strcasecmp_eq st ''rfc822'' then
        (case embedded_message rest of
           Some (env, body, n) \<Rightarrow>
             (case imap_parse_bodystructure_args body of
                None \<Rightarrow> None
              | Some b \<Rightarrow>
                  Some (imap_write_items [IMAP_ARG_STRING t, IMAP_ARG_STRING st, p, f1, f2, f3, f4,
                                          IMAP_ARG_LIST env] @ '' '' @ b @ '' '' @ n))
         | None \<Rightarrow> None)
      else Some (imap_write_items [IMAP_ARG_STRING t, IMAP_ARG_STRING st, p, f1, f2, f3, f4]))"
  by (rule reduce_leaf)

theorem leaf_fields_copied_witness:
  \<open>imap_parse_bodystructure_args
     [IMAP_ARG_STRING ''TEXT'', IMAP_ARG_STRING ''plain'', IMAP_ARG_NIL, IMAP_ARG_NIL,
      IMAP_ARG_ATOM ''x'', IMAP_ARG_STRING ''7bit'', IMAP_ARG_ATOM ''many'',
      IMAP_ARG_ATOM ''-1'', IMAP_ARG_NIL] =
   Some ''"TEXT" "plain" NIL NIL x "7bit" many -1''\<close>
  using leaf_fields_copied [of "''TEXT''" "''plain''" IMAP_ARG_NIL IMAP_ARG_NIL
      "IMAP_ARG_ATOM ''x''" "IMAP_ARG_STRING ''7bit''" "IMAP_ARG_ATOM ''many''"
      "[IMAP_ARG_ATOM ''-1'', IMAP_ARG_NIL]"]
  by (simp add: params_field_def line_count_def strcasecmp_eq_def i_tolower_def)

section \<open>The claims about the classifier\<close>

text \<open>
  C6.  The Content-Language parser is a total function of the token stream.  With no
  token it leaves the metadata as it is; otherwise the language field becomes the tags
  of the stream: comments dropped, a comma closing the open tag, every other token
  opening a tag when none is open and adding its text (its bytes for a string token,
  its character otherwise), the tags quoted and joined by spaces.  The tokens of
  \<^verbatim>\<open>en-US, (comment) az-arabic\<close> give \<^verbatim>\<open>"en-US" "az-arabic"\<close>.
\<close>

theorem content_language_parser:
  \<open>parse_content_language E tokens data =
     (if tokens = [] then data
      else data\<lparr>content_language := Some (language_tags (IS_TOKEN_STRING E) tokens)\<rparr>) \<and>
   (IS_TOKEN_STRING E (CHR ''A'') \<longrightarrow>
      content_language (parse_content_language E
         [\<lparr>token = CHR ''A'', ptr = ''en-US''\<rparr>, \<lparr>token = CHR '','', ptr = '',''\<rparr>,
          \<lparr>token = CHR ''('', ptr = ''comment''\<rparr>, \<lparr>token = CHR ''A'', ptr = ''az-arabic''\<rparr>]
         data) =
      Some ''"en-US" "az-arabic"'')\<close>
  by (simp add: parse_content_language_def language_loop_tags [symmetric])

theorem content_language_parser_witness:
  \<open>IS_TOKEN_STRING example_externals (CHR ''A'') \<and>
   content_language (parse_content_language example_externals
         [\<lparr>token = CHR ''A'', ptr = ''en-US''\<rparr>, \<lparr>token = CHR '','', ptr = '',''\<rparr>,
          \<lparr>token = CHR ''('', ptr = ''comment''\<rparr>, \<lparr>token = CHR ''A'', ptr = ''az-arabic''\<rparr>]
         empty_body_data) =
      Some ''"en-US" "az-arabic"''\<close>
proof -
  have a: "IS_TOKEN_STRING example_externals (CHR ''A'')"
    by (simp add: example_externals_def)
  from content_language_parser [of example_externals "[]" empty_body_data] a
  show ?thesis by blast
qed

text \<open>
  C9.  When the parent is not a message/rfc822 part, a header line changes the part
  only if its name is longer than 8 bytes and begins with \<^verbatim>\<open>Content-\<close> in any
  case: a name of 8 bytes or fewer leaves the part as it is, without metadata if it
  had none, and a relevant name always leaves the part with metadata.
\<close>

theorem irrelevant_header_dropped:
  "(case parent of None \<Rightarrow> True | Some p \<Rightarrow> MESSAGE_PART_FLAG_MESSAGE_RFC822 \<notin> flags p) \<Longrightarrow>
   (parse_header E parent part name v \<noteq> part \<longrightarrow>
      8 < length name \<and> strncasecmp_eq name ''Content-'' 8) \<and>
   (length name \<le> 8 \<longrightarrow> parse_header E parent part name v = part) \<and>
   (8 < length name \<and> strncasecmp_eq name ''Content-'' 8 \<longrightarrow>
      part_context (parse_header E parent part name v) \<noteq> None)"
  by (cases part; cases parent) (auto simp: Let_def)

theorem irrelevant_header_dropped_witness:
  "parse_header example_externals None
     (MessagePart {MESSAGE_PART_FLAG_TEXT} \<lparr>virtual_size = 0, lines = 0\<rparr> None []) ''Content-'' ''x'' =
   MessagePart {MESSAGE_PART_FLAG_TEXT} \<lparr>virtual_size = 0, lines = 0\<rparr> None [] \<and>
   part_context (parse_header example_externals None
     (MessagePart {MESSAGE_PART_FLAG_TEXT} \<lparr>virtual_size = 0, lines = 0\<rparr> None []) ''CONTENT-x'' ''x'') \<noteq> None"
  using irrelevant_header_dropped [of None example_externals
      "MessagePart {MESSAGE_PART_FLAG_TEXT} \<lparr>virtual_size = 0, lines = 0\<rparr> None []" "''Content-''" "''x''"]
    irrelevant_header_dropped [of None example_externals
      "MessagePart {MESSAGE_PART_FLAG_TEXT} \<lparr>virtual_size = 0, lines = 0\<rparr> None []" "''CONTENT-x''" "''x''"]
  by (simp add: strncasecmp_eq_def i_tolower_def)

text \<open>
  C7, as stated, fails: the language field is not overwritten by every
  Content-Language line.  A line whose value has no token leaves the language of an
  earlier line in place.
\<close>

theorem language_not_always_overwritten_counterexample:
  \<open>content_language
     (metadata_after example_externals None
        (MessagePart {MESSAGE_PART_FLAG_TEXT} \<lparr>virtual_size = 0, lines = 0\<rparr> None [])
        [(''Content-Language'', ''en''), (''Content-Language'', [])]) =
   Some ''"en"''\<close>
  by (simp add: metadata_after_fold metadata_def header_step_def language_name_relevant
        language_dispatch t_strndup_def strcasecmp_eq_def parse_content_language_def
        example_externals_def example_tokens_def)

text \<open>
  C7, amended.  For the header lines of one part that starts without metadata, every
  scalar field holds the value of the first occurrence of its header among the lines
  read so far, and is absent when there is none: the type, the subtype and the
  parameters from the first Content-Type line, the transfer encoding from the first
  Content-Transfer-Encoding line, the content id, the description and the md5 from the
  first line of their header, the disposition and its parameters from the first
  Content-Disposition line.  So a field that is set after some lines has the same value
  after any further lines.  A Content-Language line sets the language field to the
  tags of its own value whatever the field held, unless its value has no token, in
  which case the field is left as it was.
\<close>

theorem first_header_wins:
  "part_context part = None \<Longrightarrow>
   content_type (metadata_after E parent part hs) =
     map_option (type_value E) (first_occurrence ''Content-Type'' hs) \<and>
   content_subtype (metadata_after E parent part hs) =
     map_option (subtype_value E) (first_occurrence ''Content-Type'' hs) \<and>
   content_type_params (metadata_after E parent part hs) =
     map_option (params_value E) (first_occurrence ''Content-Type'' hs) \<and>
   content_transfer_encoding (metadata_after E parent part hs) =
     map_option (whole_value E) (first_occurrence ''Content-Transfer-Encoding'' hs) \<and>
   content_id (metadata_after E parent part hs) =
     map_option (imap_quote_value E) (first_occurrence ''Content-ID'' hs) \<and>
   content_description (metadata_after E parent part hs) =
     map_option (imap_quote_value E) (first_occurrence ''Content-Description'' hs) \<and>
   content_disposition (metadata_after E parent part hs) =
     map_option (whole_value E) (first_occurrence ''Content-Disposition'' hs) \<and>
   content_disposition_params (metadata_after E parent part hs) =
     map_option (params_value E) (first_occurrence ''Content-Disposition'' hs) \<and>
   content_md5 (metadata_after E parent part hs) =
     map_option (imap_quote_value E) (first_occurrence ''Content-MD5'' hs) \<and>
   frozen (metadata_after E parent part hs) (metadata_after E parent part (hs @ later)) \<and>
   (strcasecmp_eq (t_strndup name) ''Content-Language'' \<longrightarrow>
      content_language (metadata_after E parent part (hs @ [(name, v)])) =
        (if content_tokens E (t_strndup v) = [] then content_language (metadata_after E parent part hs)
         else Some (language_loop (IS_TOKEN_STRING E) (content_tokens E (t_strndup v)) [] False)))"
proof -
  assume fresh: "part_context part = None"
  have m0: "metadata part = empty_body_data"
    using fresh by (simp add: metadata_def)
  have inv0: "disposition_inv (metadata part)"
    using fresh by (simp add: metadata_def disposition_inv_def empty_body_data_def)
  have inv: "disposition_inv (metadata_after E parent part hs)"
    using fold_frozen[OF inv0] by (simp add: metadata_after_fold)
  have "frozen (metadata_after E parent part hs) (metadata_after E parent part (hs @ later))"
    using fold_frozen[OF inv, of E parent later] by (simp add: metadata_after_fold)
  moreover have "content_language (metadata_after E parent part (hs @ [(name, v)])) =
        (if content_tokens E (t_strndup v) = [] then content_language (metadata_after E parent part hs)
         else Some (language_loop (IS_TOKEN_STRING E) (content_tokens E (t_strndup v)) [] False))"
    if "strcasecmp_eq (t_strndup name) ''Content-Language''"
    using that
    by (simp add: metadata_after_fold header_step_def language_name_relevant language_dispatch
          parse_content_language_def)
  ultimately show ?thesis
    using fold_fields[of E parent hs] by (simp only: metadata_after_fold m0) blast
qed

theorem first_header_wins_witness:
  \<open>part_context (MessagePart {MESSAGE_PART_FLAG_TEXT} \<lparr>virtual_size = 0, lines = 0\<rparr> None []
      :: unit message_part) = None \<and>
   content_id (metadata_after example_externals None
      (MessagePart {MESSAGE_PART_FLAG_TEXT} \<lparr>virtual_size = 0, lines = 0\<rparr> None [])
      [(''Content-ID'', ''a''), (''content-id'', ''b'')]) = Some ''"a"'' \<and>
   content_transfer_encoding (metadata_after example_externals None
      (MessagePart {MESSAGE_PART_FLAG_TEXT} \<lparr>virtual_size = 0, lines = 0\<rparr> None [])
      [(''Content-ID'', ''a''), (''Content-Transfer-Encoding'', ''base64''),
       (''Content-Transfer-Encoding'', ''7bit'')]) = Some ''"base64"'' \<and>
   content_md5 (metadata_after example_externals None
      (MessagePart {MESSAGE_PART_FLAG_TEXT} \<lparr>virtual_size = 0, lines = 0\<rparr> None [])
      [(''Content-ID'', ''a'')]) = None \<and>
   content_language (metadata_after example_externals None
      (MessagePart {MESSAGE_PART_FLAG_TEXT} \<lparr>virtual_size = 0, lines = 0\<rparr> None [])
      ([(''Content-Language'', ''en'')] @ [(''content-language'', ''fi'')])) = Some ''"fi"''\<close>
proof -
  let ?p = "MessagePart {MESSAGE_PART_FLAG_TEXT} \<lparr>virtual_size = 0, lines = 0\<rparr> None []
      :: unit message_part"
  have fresh: "part_context ?p = None" by simp
  have name: "strcasecmp_eq (t_strndup ''content-language'') ''Content-Language''"
    by (simp add: strcasecmp_eq_def i_tolower_def t_strndup_def)
  note names = first_occurrence_def t_strndup_def strcasecmp_eq_def i_tolower_def
  note vals = whole_value_def example_externals_def example_tokens_def example_quoted_def
    t_strndup_def
  have o1: "first_occurrence ''Content-ID'' [(''Content-ID'', ''a''), (''content-id'', ''b'')] =
            Some ''a''"
    by (simp add: names)
  have o2: "first_occurrence ''Content-Transfer-Encoding''
              [(''Content-ID'', ''a''), (''Content-Transfer-Encoding'', ''base64''),
               (''Content-Transfer-Encoding'', ''7bit'')] = Some ''base64''"
    by (simp add: names)
  have o3: "first_occurrence ''Content-MD5'' [(''Content-ID'', ''a'')] = None"
    by (simp add: names)
  note t1 = first_header_wins [OF fresh, of example_externals None
      "[(''Content-ID'', ''a''), (''content-id'', ''b'')]" "[]" "[]" "[]",
      THEN conjunct2, THEN conjunct2, THEN conjunct2, THEN conjunct2, THEN conjunct1]
  have first: \<open>content_id (metadata_after example_externals None ?p
      [(''Content-ID'', ''a''), (''content-id'', ''b'')]) = Some ''"a"''\<close>
    unfolding t1 o1 by (simp add: vals)
  note t2 = first_header_wins [OF fresh, of example_externals None
      "[(''Content-ID'', ''a''), (''Content-Transfer-Encoding'', ''base64''),
        (''Content-Transfer-Encoding'', ''7bit'')]" "[]" "[]" "[]",
      THEN conjunct2, THEN conjunct2, THEN conjunct2, THEN conjunct1]
  have second: \<open>content_transfer_encoding (metadata_after example_externals None ?p
      [(''Content-ID'', ''a''), (''Content-Transfer-Encoding'', ''base64''),
       (''Content-Transfer-Encoding'', ''7bit'')]) = Some ''"base64"''\<close>
    unfolding t2 o2 by (simp add: vals)
  note t3 = first_header_wins [OF fresh, of example_externals None "[(''Content-ID'', ''a'')]"
      "[]" "[]" "[]",
      THEN conjunct2, THEN conjunct2, THEN conjunct2, THEN conjunct2, THEN conjunct2,
      THEN conjunct2, THEN conjunct2, THEN conjunct2, THEN conjunct1]
  have third: \<open>content_md5 (metadata_after example_externals None ?p
      [(''Content-ID'', ''a'')]) = None\<close>
    unfolding t3 o3 by simp
  note t4 = first_header_wins [OF fresh, of example_externals None "[(''Content-Language'', ''en'')]"
      "[]" "''content-language''" "''fi''",
      THEN conjunct2, THEN conjunct2, THEN conjunct2, THEN conjunct2, THEN conjunct2,
      THEN conjunct2, THEN conjunct2, THEN conjunct2, THEN conjunct2, THEN conjunct2]
  from t4 name
  have lang: \<open>content_language (metadata_after example_externals None ?p
      ([(''Content-Language'', ''en'')] @ [(''content-language'', ''fi'')])) = Some ''"fi"''\<close>
    by (simp add: example_externals_def example_tokens_def t_strndup_def)
  from fresh first second third lang show ?thesis by blast
qed
section \<open>The claims about rendering and reducing together\<close>




text \<open>
  C4, as stated, fails: the writer adds the line count when the part is flagged as
  text, while the reducer keeps it when the type it reads is \<^verbatim>\<open>text\<close>.  A leaf
  flagged as text whose metadata names another type loses its line count.
\<close>

theorem text_flag_without_text_type_counterexample:
  \<open>part_get_bodystructure id
     (MessagePart {MESSAGE_PART_FLAG_TEXT} \<lparr>virtual_size = 12, lines = 1\<rparr>
        (Some (empty_body_data\<lparr>content_type := Some ''"image"'',
                               content_subtype := Some ''"png"''\<rparr>)) []) True =
     Inr ''"image" "png" NIL NIL NIL "8bit" 12 1 NIL NIL NIL'' \<and>
   imap_body_parse_from_bodystructure ''"image" "png" NIL NIL NIL "8bit" 12 1 NIL NIL NIL'' =
     Some ''"image" "png" NIL NIL NIL "8bit" 12''\<close>
  by (simp add: part_get_bodystructure_def body_fields_def body_extended_def
        empty_body_data_def NVL_def params_or_nil_def dec.simps digit_char_def
        imap_body_parse_from_bodystructure_def imap_parser_read_args_def idle_step_def
        atom_arg_def reduce_leaf params_field_def strcasecmp_eq_def i_tolower_def)

text \<open>
  C4, amended.  For a leaf that is not a multipart, is flagged as text, and whose
  metadata satisfies \<open>text_leaf_ok\<close> (the type it writes is the quoted string
  \<^verbatim>\<open>text\<close> in any case, the subtype is a quoted string, the parameters are pairs of
  quoted strings, the content id, the description and the transfer encoding are each
  NIL, an atom or a quoted string, and the md5, disposition and language texts are
  accepted by the argument parser), reducing the extended rendering succeeds and gives
  the unextended rendering: the type, subtype, parameters, content id, description,
  transfer encoding, size and line count byte for byte, without the trailing md5,
  disposition and language fields.
\<close>

theorem reduce_render_text_leaf:
  "MESSAGE_PART_FLAG_MULTIPART \<notin> fl \<Longrightarrow> MESSAGE_PART_FLAG_TEXT \<in> fl \<Longrightarrow>
   text_leaf_ok (case ctx of None \<Rightarrow> empty_body_data | Some d \<Rightarrow> d) \<Longrightarrow>
   \<exists>r u. part_get_bodystructure ew (MessagePart fl sz ctx ch) True = Inr r \<and>
         part_get_bodystructure ew (MessagePart fl sz ctx ch) False = Inr u \<and>
         imap_body_parse_from_bodystructure r = Some u \<and>
         u = body_fields (case ctx of None \<Rightarrow> empty_body_data | Some d \<Rightarrow> d) sz @ '' '' @
             dec (lines sz) \<and>
         r = u @ body_extended (case ctx of None \<Rightarrow> empty_body_data | Some d \<Rightarrow> d)"
  by (rule text_leaf_roundtrip)

theorem reduce_render_text_leaf_witness:
  \<open>MESSAGE_PART_FLAG_MULTIPART \<notin> {MESSAGE_PART_FLAG_TEXT} \<and>
   MESSAGE_PART_FLAG_TEXT \<in> {MESSAGE_PART_FLAG_TEXT} \<and>
   text_leaf_ok
     (empty_body_data\<lparr>content_type := Some ''"TEXT"'', content_subtype := Some ''"html"'',
        content_type_params := Some ''"charset" "utf-8"'', content_id := Some ''"<a@b>"'',
        content_md5 := Some ''"q2hlY2s="'', content_disposition := Some ''"inline"'',
        content_disposition_params := Some ''"filename" "x"'',
        content_language := Some ''"en"''\<rparr> :: string body_data) \<and>
   imap_body_parse_from_bodystructure
     ''"TEXT" "html" ("charset" "utf-8") "<a@b>" NIL "8bit" 12 1 "q2hlY2s=" ("inline") ("filename" "x") ("en")'' =
     Some ''"TEXT" "html" ("charset" "utf-8") "<a@b>" NIL "8bit" 12 1''\<close>
proof -
  let ?d = \<open>empty_body_data\<lparr>content_type := Some ''"TEXT"'', content_subtype := Some ''"html"'',
        content_type_params := Some ''"charset" "utf-8"'', content_id := Some ''"<a@b>"'',
        content_md5 := Some ''"q2hlY2s="'', content_disposition := Some ''"inline"'',
        content_disposition_params := Some ''"filename" "x"'',
        content_language := Some ''"en"''\<rparr> :: string body_data\<close>
  have ok: "text_leaf_ok ?d"
    by (simp add: text_leaf_ok_def string_field_def scalar_text_def params_text_def
          read_canonical_def field_ok_def wire_ok_def empty_body_data_def NVL_def
          imap_parser_read_args_def idle_step_def atom_arg_def strcasecmp_eq_def i_tolower_def)
  from reduce_render_text_leaf [of "{MESSAGE_PART_FLAG_TEXT}" "Some ?d" id
      "\<lparr>virtual_size = 12, lines = 1\<rparr>" "[]"] ok
  have \<open>imap_body_parse_from_bodystructure
     ''"TEXT" "html" ("charset" "utf-8") "<a@b>" NIL "8bit" 12 1 "q2hlY2s=" ("inline") ("filename" "x") ("en")'' =
     Some ''"TEXT" "html" ("charset" "utf-8") "<a@b>" NIL "8bit" 12 1''\<close>
    by (simp add: body_fields_def body_extended_def empty_body_data_def NVL_def
          params_or_nil_def dec.simps digit_char_def)
  with ok show ?thesis by simp
qed

text \<open>
  C10.  Reduction is not idempotent on a message/rfc822 leaf: the reducer writes the
  body nested in it without the parentheses that enclose it in the input, so the
  result has the nested type where the line count is expected, and reducing it again
  fails.  The multipart branch of the reducer and the writer \<open>part_write_bodystructure\<close>
  both enclose a nested body in parentheses.
\<close>

theorem reduce_message_rfc822_not_fixed_point:
  \<open>imap_body_parse_from_bodystructure
     ''"message" "rfc822" NIL NIL NIL "7bit" 100 (NIL NIL NIL NIL NIL NIL NIL NIL NIL NIL) ("text" "plain" NIL NIL NIL "7bit" 12 1) 5'' =
     Some ''"message" "rfc822" NIL NIL NIL "7bit" 100 (NIL NIL NIL NIL NIL NIL NIL NIL NIL NIL) "text" "plain" NIL NIL NIL "7bit" 12 1 5'' \<and>
   imap_body_parse_from_bodystructure
     ''"message" "rfc822" NIL NIL NIL "7bit" 100 (NIL NIL NIL NIL NIL NIL NIL NIL NIL NIL) "text" "plain" NIL NIL NIL "7bit" 12 1 5'' =
     None\<close>
  by (simp add: imap_body_parse_from_bodystructure_def imap_parser_read_args_def idle_step_def
        atom_arg_def reduce_leaf params_field_def strcasecmp_eq_def i_tolower_def
        line_count_def embedded_message_def)
end
